theory Spec2Isabelle
  imports Main "HOL-Library.Sublist"
begin

section \<open>Python values shared by the tools and the orchestrator\<close>

text \<open>
  Python \<open>str\<close> is modelled as \<open>string\<close>, one \<open>char\<close> for one character. Exceptions are
  values: a kind and the message that \<open>str(e)\<close> gives. A function of the source that can
  raise returns \<open>py_exn + 'a\<close>, with \<open>Inl\<close> for the raise.
\<close>

datatype exn_kind =
    TypeError | ValueError | KeyError | SyntaxError | UnicodeDecodeError | AttributeError
  | JSONDecodeError | OSError | RuntimeError | RecursionError | ValidationError

datatype py_exn = Raised exn_kind string

subsection \<open>\<open>str(int)\<close>, slicing, \<open>join\<close>, \<open>repr\<close>\<close>

definition digit_char :: "nat \<Rightarrow> char" where
  "digit_char d = ''0123456789'' ! d"

fun digits_of :: "nat \<Rightarrow> string" where
  "digits_of n = (if n < 10 then [digit_char n] else digits_of (n div 10) @ [digit_char (n mod 10)])"

declare digits_of.simps [simp del]

definition str_int :: "int \<Rightarrow> string" where
  "str_int i = (if i < 0 then CHR ''-'' # digits_of (nat (- i)) else digits_of (nat i))"

text \<open>\<open>xs[:k]\<close>: a negative \<open>k\<close> counts from the end, and the bounds are clipped.\<close>

definition slice_to :: "'a list \<Rightarrow> int \<Rightarrow> 'a list" where
  "slice_to xs k = (if k < 0 then take (nat (int (length xs) + k)) xs else take (nat k) xs)"

fun join :: "string \<Rightarrow> string list \<Rightarrow> string" where
  "join sep [] = []"
| "join sep [x] = x"
| "join sep (x # y # ys) = x @ sep @ join sep (y # ys)"

definition hex_char :: "nat \<Rightarrow> char" where
  "hex_char d = ''0123456789abcdef'' ! d"

definition printable :: "char \<Rightarrow> bool" where
  "printable c = (let n = (of_char c :: nat) in
     (32 \<le> n \<and> n \<le> 126) \<or> (161 \<le> n \<and> n \<noteq> 173))"

definition repr_char :: "char \<Rightarrow> char \<Rightarrow> string" where
  "repr_char q c =
     (if c = q \<or> c = CHR 0x5C then [CHR 0x5C, c]
      else if c = CHR 0x09 then [CHR 0x5C, CHR ''t'']
      else if c = CHR 0x0A then [CHR 0x5C, CHR ''n'']
      else if c = CHR 0x0D then [CHR 0x5C, CHR ''r'']
      else if \<not> printable c
        then [CHR 0x5C, CHR ''x'', hex_char ((of_char c :: nat) div 16), hex_char ((of_char c :: nat) mod 16)]
      else [c])"

text \<open>\<open>repr\<close> of a \<open>str\<close>: single quotes, unless the text has a single and no double quote.\<close>

definition repr_str :: "string \<Rightarrow> string" where
  "repr_str s =
     (let q = (if CHR 0x27 \<in> set s \<and> CHR 0x22 \<notin> set s then CHR 0x22 else CHR 0x27)
      in q # concat (map (repr_char q) s) @ [q])"

definition repr_list :: "string list \<Rightarrow> string" where
  "repr_list xs = ''['' @ join '', '' (map repr_str xs) @ '']''"

section \<open>The command tools (tools/bash_tool.py)\<close>

text \<open>
  \<open>truncate_str\<close> and \<open>find_text_char_limit\<close> are imported from \<open>patched_adk.config\<close>, which
  is not part of the sources: they are parameters of the model.
\<close>

record config =
  truncate_str :: string
  find_text_char_limit :: int

text \<open>
  The bytes of a pipe, given by what \<open>.decode("utf-8")\<close> makes of them: a text, or a
  \<open>UnicodeDecodeError\<close> when they are not well-formed UTF-8.
\<close>

datatype bytes = Utf8 string | Malformed

fun decode_utf8 :: "bytes \<Rightarrow> py_exn + string" where
  "decode_utf8 (Utf8 s) = Inr s"
| "decode_utf8 Malformed = Inl (Raised UnicodeDecodeError ''invalid utf-8'')"

text \<open>What \<open>create_subprocess_exec\<close> followed by \<open>communicate\<close> gives.\<close>

record completed =
  returncode :: int
  stdout :: bytes
  stderr :: bytes

type_synonym spawn = "string \<Rightarrow> string list \<Rightarrow> py_exn + completed"

text \<open>
  \<open>create_runtime_cli_tool\<close> writes the source text of \<open>async def {command}_cli\<close>, with the
  command and the budget pasted into it, compiles it and returns \<open>space[func_name]\<close>. The
  function it returns is the closure \<open>CliTool command truncate_length\<close>; its only argument
  is \<open>args\<close>. The text defines a function of the name \<open>{command}_cli\<close> only when that name is
  an identifier that Python leaves as it is written: ASCII letters, digits and \<open>_\<close>, the
  letters \<open>0xC0\<close> to \<open>0xFF\<close> (without the two signs \<open>0xD7\<close> and \<open>0xF7\<close>) and the middle dot
  \<open>0xB7\<close>, not starting with a digit or the middle dot. For every other command \<open>compile\<close>
  or the lookup in \<open>space\<close> raises; the model gives one exception for all of these. The
  sentinel is pasted into the docstring and is taken not to end it.
\<close>

datatype cli_tool = CliTool (bound_command: string) (bound_truncate: "int option")

definition ident_start :: "char \<Rightarrow> bool" where
  "ident_start c = (let n = (of_char c :: nat) in
     (65 \<le> n \<and> n \<le> 90) \<or> (97 \<le> n \<and> n \<le> 122) \<or> n = 95
     \<or> (192 \<le> n \<and> n \<le> 214) \<or> (216 \<le> n \<and> n \<le> 246) \<or> 248 \<le> n)"

definition is_digit :: "char \<Rightarrow> bool" where
  "is_digit c = (let n = (of_char c :: nat) in 48 \<le> n \<and> n \<le> 57)"

definition ident_char :: "char \<Rightarrow> bool" where
  "ident_char c = (ident_start c \<or> is_digit c \<or> (of_char c :: nat) = 183)"

definition defines_function :: "string \<Rightarrow> bool" where
  "defines_function command =
     (list_all ident_char command \<and> (case command of [] \<Rightarrow> True | c # _ \<Rightarrow> ident_start c))"

definition create_runtime_cli_tool :: "string \<Rightarrow> int option \<Rightarrow> py_exn + cli_tool" where
  "create_runtime_cli_tool command truncate_length =
     (if defines_function command then Inr (CliTool command truncate_length)
      else Inl (Raised SyntaxError ''invalid syntax''))"

text \<open>The truth value of the pasted budget: \<open>None\<close> and \<open>0\<close> are false.\<close>

fun budget_truthy :: "int option \<Rightarrow> bool" where
  "budget_truthy None = False"
| "budget_truthy (Some b) = (b \<noteq> 0)"

text \<open>The body of the generated function.\<close>

definition cli_call :: "config \<Rightarrow> spawn \<Rightarrow> cli_tool \<Rightarrow> string list \<Rightarrow> py_exn + string" where
  "cli_call cfg run tool args =
     (case run (bound_command tool) args of
        Inl e \<Rightarrow> Inl e
      | Inr process \<Rightarrow>
          if returncode process \<noteq> 0 then
            (case decode_utf8 (stderr process) of
               Inl e \<Rightarrow> Inl e
             | Inr err_msg \<Rightarrow>
                 let err_str = ''Command '' @ bound_command tool @ '' '' @ repr_list args
                       @ '' failed with return code '' @ str_int (returncode process)
                       @ '' and stderr: '' @ err_msg
                 in Inr (''Error: '' @ err_str))
          else
            (case decode_utf8 (stdout process) of
               Inl e \<Rightarrow> Inl e
             | Inr output \<Rightarrow>
                 if budget_truthy (bound_truncate tool)
                    \<and> int (length output) > the (bound_truncate tool)
                 then Inr (slice_to output (the (bound_truncate tool)) @ truncate_str cfg)
                 else Inr output))"

text \<open>
  \<open>get_bash_tool\<close>: the comprehension iterates \<open>allowed_commands\<close>, whose default is \<open>None\<close>;
  the first command whose tool cannot be built raises.
\<close>

fun create_all :: "int option \<Rightarrow> string list \<Rightarrow> py_exn + cli_tool list" where
  "create_all truncate_length [] = Inr []"
| "create_all truncate_length (command # rest) =
     (case create_runtime_cli_tool command truncate_length of
        Inl e \<Rightarrow> Inl e
      | Inr t \<Rightarrow> (case create_all truncate_length rest of Inl e \<Rightarrow> Inl e | Inr ts \<Rightarrow> Inr (t # ts)))"

fun get_bash_tool :: "string list option \<Rightarrow> int option \<Rightarrow> py_exn + cli_tool list" where
  "get_bash_tool None truncate_length = Inl (Raised TypeError (CHR 0x27 # ''NoneType'' @ CHR 0x27 # '' object is not iterable''))"
| "get_bash_tool (Some allowed_commands) truncate_length = create_all truncate_length allowed_commands"


section \<open>The review workflow (agent/agent.py)\<close>

datatype pyval =
    PNone | PBool bool | PInt int | PFloat int int | PStr string
  | PList "pyval list" | PDict "(string \<times> pyval) list"

fun truthy :: "pyval \<Rightarrow> bool" where
  "truthy PNone = False"
| "truthy (PBool b) = b"
| "truthy (PInt i) = (i \<noteq> 0)"
| "truthy (PFloat m e) = (m \<noteq> 0)"
| "truthy (PStr s) = (s \<noteq> [])"
| "truthy (PList xs) = (xs \<noteq> [])"
| "truthy (PDict kvs) = (kvs \<noteq> [])"

type_synonym state = "string \<Rightarrow> pyval option"

definition state_get :: "state \<Rightarrow> string \<Rightarrow> pyval" where
  "state_get st k = (case st k of None \<Rightarrow> PNone | Some v \<Rightarrow> v)"

subsection \<open>\<open>urllib.parse.urlparse\<close>, \<open>str.strip\<close>, \<open>str.split\<close>, \<open>int\<close>\<close>

definition ascii_alpha :: "char \<Rightarrow> bool" where
  "ascii_alpha c = (let n = (of_char c :: nat) in (65 \<le> n \<and> n \<le> 90) \<or> (97 \<le> n \<and> n \<le> 122))"

definition scheme_char :: "char \<Rightarrow> bool" where
  "scheme_char c = (ascii_alpha c \<or> is_digit c \<or> c = CHR ''+'' \<or> c = CHR ''-'' \<or> c = CHR ''.'')"

definition ascii_lower :: "char \<Rightarrow> char" where
  "ascii_lower c = (let n = (of_char c :: nat) in if 65 \<le> n \<and> n \<le> 90 then char_of (n + 32) else c)"

definition c0_control_or_space :: "char \<Rightarrow> bool" where
  "c0_control_or_space c = ((of_char c :: nat) \<le> 32)"

definition unsafe_url_char :: "char \<Rightarrow> bool" where
  "unsafe_url_char c = (c = CHR 0x09 \<or> c = CHR 0x0D \<or> c = CHR 0x0A)"

definition uses_params :: "string list" where
  "uses_params = ['''', ''ftp'', ''hdl'', ''prospero'', ''http'', ''imap'', ''https'', ''shttp'',
     ''rtsp'', ''rtsps'', ''rtspu'', ''sip'', ''sips'', ''mms'', ''sftp'', ''tel'']"

text \<open>
  The three components of the parse result that the workflow reads. A bracketed or
  non-ASCII host can make the library raise \<open>ValueError\<close> in further checks; the validator
  below answers \<open>False\<close> for a raise and for such a host alike, so only the first of these
  checks is written out.
\<close>

record url_parts =
  scheme :: string
  netloc :: string
  url_path :: string

definition split_scheme :: "string \<Rightarrow> string \<times> string" where
  "split_scheme url =
     (let head = takeWhile (\<lambda>c. c \<noteq> CHR '':'') url in
      if CHR '':'' \<in> set url \<and> head \<noteq> [] \<and> ascii_alpha (hd url) \<and> list_all scheme_char head
      then (map ascii_lower head, drop (Suc (length head)) url)
      else ([], url))"

definition netloc_delim :: "char \<Rightarrow> bool" where
  "netloc_delim c = (c = CHR ''/'' \<or> c = CHR ''?'' \<or> c = CHR ''#'')"

definition split_netloc :: "string \<Rightarrow> string \<times> string" where
  "split_netloc url =
     (if take 2 url = ''//''
      then (takeWhile (\<lambda>c. \<not> netloc_delim c) (drop 2 url), dropWhile (\<lambda>c. \<not> netloc_delim c) (drop 2 url))
      else ([], url))"

definition splitparams :: "string \<Rightarrow> string" where
  "splitparams url =
     (if CHR ''/'' \<in> set url then
        (let last_seg = rev (takeWhile (\<lambda>c. c \<noteq> CHR ''/'') (rev url));
             before = take (length url - length last_seg) url
         in before @ takeWhile (\<lambda>c. c \<noteq> CHR '';'') last_seg)
      else takeWhile (\<lambda>c. c \<noteq> CHR '';'') url)"

definition urlparse :: "string \<Rightarrow> py_exn + url_parts" where
  "urlparse url0 =
     (let url1 = filter (\<lambda>c. \<not> unsafe_url_char c) (dropWhile c0_control_or_space url0);
          (sch, url2) = split_scheme url1;
          (loc, url3) = split_netloc url2
      in if (CHR ''['' \<in> set loc \<and> CHR '']'' \<notin> set loc) \<or> (CHR '']'' \<in> set loc \<and> CHR ''['' \<notin> set loc)
         then Inl (Raised ValueError ''Invalid IPv6 URL'')
         else
           (let url4 = takeWhile (\<lambda>c. c \<noteq> CHR ''#'') url3;
                url5 = takeWhile (\<lambda>c. c \<noteq> CHR ''?'') url4;
                url6 = (if sch \<in> set uses_params \<and> CHR '';'' \<in> set url5 then splitparams url5 else url5)
            in Inr \<lparr>scheme = sch, netloc = loc, url_path = url6\<rparr>))"

definition strip_chars :: "(char \<Rightarrow> bool) \<Rightarrow> string \<Rightarrow> string" where
  "strip_chars P s = rev (dropWhile P (rev (dropWhile P s)))"

fun split_on :: "char \<Rightarrow> string \<Rightarrow> string list" where
  "split_on d [] = [Nil]"
| "split_on d (c # s) =
     (if c = d then [] # split_on d s
      else (case split_on d s of [] \<Rightarrow> [c # Nil] | w # ws \<Rightarrow> (c # w) # ws))"

text \<open>The white space that \<open>str.strip()\<close> removes, and the white space that \<open>int\<close> accepts.\<close>

definition py_space :: "char \<Rightarrow> bool" where
  "py_space c = (let n = (of_char c :: nat) in (9 \<le> n \<and> n \<le> 13) \<or> (28 \<le> n \<and> n \<le> 32) \<or> n = 133 \<or> n = 160)"

definition int_space :: "char \<Rightarrow> bool" where
  "int_space c = (let n = (of_char c :: nat) in (9 \<le> n \<and> n \<le> 13) \<or> n = 32 \<or> n = 133 \<or> n = 160)"

text \<open>
  \<open>int(s)\<close> succeeds on an optional sign and groups of digits with single underscores
  between them, with white space around, and at most 4300 digits.
\<close>

fun digit_groups :: "string \<Rightarrow> bool" where
  "digit_groups [] = False"
| "digit_groups [c] = is_digit c"
| "digit_groups (c # d # s) =
     (is_digit c \<and> (if d = CHR ''_'' then digit_groups s else digit_groups (d # s)))"

definition int_parses :: "string \<Rightarrow> bool" where
  "int_parses s =
     (let t = strip_chars int_space s;
          u = (case t of [] \<Rightarrow> [] | c # r \<Rightarrow> if c = CHR ''+'' \<or> c = CHR ''-'' then r else t)
      in digit_groups u \<and> length (filter is_digit u) \<le> 4300)"


subsection \<open>The state values and their operators\<close>

text \<open>\<open>json.loads\<close> is a parameter; \<open>isinstance(v, str)\<close> decides whether it is called.\<close>

type_synonym loads = "string \<Rightarrow> py_exn + pyval"

definition decode_value :: "loads \<Rightarrow> pyval \<Rightarrow> py_exn + pyval" where
  "decode_value json_loads v = (case v of PStr s \<Rightarrow> json_loads s | _ \<Rightarrow> Inr v)"

text \<open>The kinds that \<open>except (json.JSONDecodeError, TypeError)\<close> catches.\<close>

definition caught_inner :: "exn_kind \<Rightarrow> bool" where
  "caught_inner k = (k = JSONDecodeError \<or> k = TypeError)"

text \<open>
  \<open>key in v\<close>, \<open>v[key]\<close>, iteration, and \<open>v.get\<close> being there, with the messages of the
  exceptions; \<open>type_name\<close> is \<open>type(v).__name__\<close>.
\<close>

fun type_name :: "pyval \<Rightarrow> string" where
  "type_name PNone = ''NoneType''"
| "type_name (PBool b) = ''bool''"
| "type_name (PInt i) = ''int''"
| "type_name (PFloat m e) = ''float''"
| "type_name (PStr s) = ''str''"
| "type_name (PList xs) = ''list''"
| "type_name (PDict kvs) = ''dict''"

definition quoted :: "string \<Rightarrow> string" where
  "quoted s = [CHR 0x27] @ s @ [CHR 0x27]"

fun py_contains :: "pyval \<Rightarrow> string \<Rightarrow> py_exn + bool" where
  "py_contains (PDict kvs) k = Inr (k \<in> set (map fst kvs))"
| "py_contains (PList xs) k = Inr (PStr k \<in> set xs)"
| "py_contains (PStr s) k = Inr (sublist k s)"
| "py_contains v k =
     Inl (Raised TypeError (''argument of type '' @ quoted (type_name v) @ '' is not iterable''))"

fun py_subscript :: "pyval \<Rightarrow> string \<Rightarrow> py_exn + pyval" where
  "py_subscript (PDict kvs) k =
     (case map_of kvs k of Some v \<Rightarrow> Inr v | None \<Rightarrow> Inl (Raised KeyError (repr_str k)))"
| "py_subscript (PStr s) k =
     Inl (Raised TypeError (''string indices must be integers, not '' @ quoted ''str''))"
| "py_subscript (PList xs) k =
     Inl (Raised TypeError ''list indices must be integers or slices, not str'')"
| "py_subscript v k =
     Inl (Raised TypeError (quoted (type_name v) @ '' object is not subscriptable''))"

fun py_iter :: "pyval \<Rightarrow> py_exn + pyval list" where
  "py_iter (PList xs) = Inr xs"
| "py_iter (PDict kvs) = Inr (map (\<lambda>kv. PStr (fst kv)) kvs)"
| "py_iter (PStr s) = Inr (map (\<lambda>c. PStr [c]) s)"
| "py_iter v = Inl (Raised TypeError (quoted (type_name v) @ '' object is not iterable''))"

fun has_get :: "pyval \<Rightarrow> bool" where
  "has_get (PDict kvs) = True"
| "has_get v = False"

subsection \<open>\<open>CodeReviewAgent\<close>\<close>

definition validate_pr_url :: "pyval \<Rightarrow> bool" where
  "validate_pr_url pr_url =
     (if \<not> truthy pr_url then False
      else case pr_url of
        PStr u \<Rightarrow>
          (case urlparse u of
             Inl e \<Rightarrow> False
           | Inr parsed \<Rightarrow>
               if netloc parsed \<noteq> ''github.com'' then False
               else
                 (let path_parts = split_on CHR ''/'' (strip_chars (\<lambda>c. c = CHR ''/'') (url_path parsed))
                  in if length path_parts \<noteq> 4 \<or> path_parts ! 2 \<noteq> ''pull'' then False
                     else int_parses (path_parts ! 3)))
      | _ \<Rightarrow> False)"

record response =
  success :: bool
  error :: pyval
  clusters :: pyval
  reviews :: pyval
  summary :: pyval

definition create_error_response :: "string \<Rightarrow> response" where
  "create_error_response error_message =
     \<lparr>success = False, error = PStr error_message, clusters = PNone, reviews = PNone, summary = PNone\<rparr>"

text \<open>
  Every result is yielded as \<open>Event(content=d)\<close>, with the result dict \<open>d\<close> as the only
  argument. \<open>Event\<close> is the class \<open>google.adk.events.Event\<close>, which is not part of the
  sources: the constructor is a parameter of the model, given by what it makes of a result
  dict, an event (of a type \<open>'e\<close>) or the exception that it raises. A constructor that
  validates its \<open>content\<close> raises for such a dict, and then nothing is yielded.
\<close>

type_synonym 'e event_ctor = "response \<Rightarrow> py_exn + 'e"

text \<open>
  A piece of the body of the outer \<open>try\<close> ends in one of three ways: an exception is on its
  way to the handler of the outer \<open>try\<close>, an event has been yielded and the function has
  returned, or the body goes on.
\<close>

datatype ('e, 'a) step = Raise py_exn | Yielded 'e | Continue 'a

text \<open>\<open>yield Event(content=d)\<close> followed by \<open>return\<close>.\<close>

definition yield_return :: "'e event_ctor \<Rightarrow> response \<Rightarrow> ('e, 'a) step" where
  "yield_return event d = (case event d of Inl e \<Rightarrow> Raise e | Inr ev \<Rightarrow> Yielded ev)"

text \<open>
  The four kinds of \<open>LlmAgent\<close> are the external collaborators: each is given what its
  instruction is built from and its tools, runs on the session state and returns the
  state it leaves, or raises. The trace lists the \<open>run_async\<close> calls in order.
\<close>

datatype stage = FetchCluster | ReviewCluster nat | FilterReviews | PostComment

record collaborators =
  fetch_cluster :: "pyval \<Rightarrow> cli_tool list \<Rightarrow> state \<Rightarrow> py_exn + state"
  review_cluster :: "nat \<Rightarrow> pyval \<Rightarrow> state \<Rightarrow> py_exn + state"
  filter_reviews :: "pyval list \<Rightarrow> state \<Rightarrow> py_exn + state"
  post_comment :: "pyval \<Rightarrow> pyval \<Rightarrow> cli_tool list \<Rightarrow> state \<Rightarrow> py_exn + state"

text \<open>
  Parsing the clusters: the inner \<open>try\<close> of step 1 and its handler
  \<open>except (json.JSONDecodeError, TypeError)\<close>. The \<open>yield\<close> for a missing key stands inside
  that \<open>try\<close>, so an exception of \<open>Event\<close> there meets the inner handler first.
\<close>

fun parse_except :: "'e event_ctor \<Rightarrow> py_exn \<Rightarrow> ('e, 'a) step" where
  "parse_except event (Raised k msg) =
     (if caught_inner k then yield_return event (create_error_response ''No clusters found'')
      else Raise (Raised k msg))"

definition parse_clusters :: "'e event_ctor \<Rightarrow> loads \<Rightarrow> pyval \<Rightarrow> ('e, pyval \<times> pyval) step" where
  "parse_clusters event json_loads base_clusters =
     (case decode_value json_loads base_clusters of
        Inl e \<Rightarrow> parse_except event e
      | Inr clusters_data \<Rightarrow>
          (case py_contains clusters_data ''clusters'' of
             Inl e \<Rightarrow> parse_except event e
           | Inr False \<Rightarrow>
               (case event (create_error_response ''No clusters found'') of
                  Inl e \<Rightarrow> parse_except event e
                | Inr ev \<Rightarrow> Yielded ev)
           | Inr True \<Rightarrow>
               (case py_subscript clusters_data ''clusters'' of
                  Inl e \<Rightarrow> parse_except event e
                | Inr cs \<Rightarrow> Continue (clusters_data, cs))))"

text \<open>
  Step 2, the loop over \<open>enumerate(clusters)\<close>, with the trace so far: it ends the run, or
  goes on with the reviews and the state after the last cluster. The two \<open>yield\<close>s of the
  loop stand outside its inner \<open>try\<close>.
\<close>

fun review_loop ::
  "'e event_ctor \<Rightarrow> collaborators \<Rightarrow> loads \<Rightarrow> nat \<Rightarrow> pyval list \<Rightarrow> pyval list \<Rightarrow> state
     \<Rightarrow> stage list \<Rightarrow> ('e, pyval list \<times> state) step \<times> stage list" where
  "review_loop event co json_loads i [] all_reviews st tr = (Continue (all_reviews, st), tr)"
| "review_loop event co json_loads i (cluster # rest) all_reviews st tr =
     (if \<not> has_get cluster
      then (Raise (Raised AttributeError
                     (quoted (type_name cluster) @ '' object has no attribute '' @ quoted ''get'')), tr)
      else
        (case review_cluster co i cluster st of
           Inl e \<Rightarrow> (Raise e, tr @ [ReviewCluster i])
         | Inr st' \<Rightarrow>
             (let review_result = state_get st' (''review_'' @ str_int (int i)) in
              if truthy review_result then
                (case decode_value json_loads review_result of
                   Inl (Raised k msg) \<Rightarrow>
                     if caught_inner k
                     then (yield_return event
                             (create_error_response (''Review failed for cluster '' @ str_int (int i))),
                           tr @ [ReviewCluster i])
                     else (Raise (Raised k msg), tr @ [ReviewCluster i])
                 | Inr review_data \<Rightarrow>
                     review_loop event co json_loads (Suc i) rest (all_reviews @ [review_data]) st'
                       (tr @ [ReviewCluster i]))
              else (yield_return event
                      (create_error_response (''Review failed for cluster '' @ str_int (int i))),
                    tr @ [ReviewCluster i]))))"

text \<open>
  Steps 3 and 4 and the success response. From here on the body does not go on: \<open>Inl\<close> is an
  exception on its way to the outer handler, \<open>Inr\<close> the event yielded.
\<close>

definition filter_and_post ::
  "'e event_ctor \<Rightarrow> collaborators \<Rightarrow> pyval \<Rightarrow> pyval \<Rightarrow> pyval list \<Rightarrow> state \<Rightarrow> stage list
     \<Rightarrow> (py_exn + 'e) \<times> stage list" where
  "filter_and_post event co pr_url clusters_data all_reviews st tr =
     (case filter_reviews co all_reviews st of
        Inl e \<Rightarrow> (Inl e, tr @ [FilterReviews])
      | Inr st3 \<Rightarrow>
          (let filtered_review = state_get st3 ''reviewed_review'' in
           if \<not> truthy filtered_review
           then (event (create_error_response ''Review filtering failed''), tr @ [FilterReviews])
           else
             (case get_bash_tool (Some [''gh'']) (Some 10000) of
                Inl e \<Rightarrow> (Inl e, tr @ [FilterReviews])
              | Inr tools \<Rightarrow>
                  (case post_comment co pr_url filtered_review tools st3 of
                     Inl e \<Rightarrow> (Inl e, tr @ [FilterReviews, PostComment])
                   | Inr st4 \<Rightarrow>
                       (let post_output = state_get st4 ''output'' in
                        if \<not> truthy post_output
                        then (event (create_error_response ''Comment posting failed''),
                              tr @ [FilterReviews, PostComment])
                        else
                          (event \<lparr>success = True, error = PNone, clusters = clusters_data,
                                   reviews = PList all_reviews, summary = filtered_review\<rparr>,
                           tr @ [FilterReviews, PostComment]))))))"

text \<open>The body of the outer \<open>try\<close>.\<close>

definition try_body ::
  "'e event_ctor \<Rightarrow> collaborators \<Rightarrow> loads \<Rightarrow> state \<Rightarrow> (py_exn + 'e) \<times> stage list" where
  "try_body event co json_loads st =
     (let pr_url = state_get st ''pr_url'' in
      if \<not> truthy pr_url then (event (create_error_response ''No pr_url provided''), [])
      else if \<not> validate_pr_url pr_url
      then (event (create_error_response ''Invalid pr_url format''), [])
      else
        (case get_bash_tool (Some [''gh'']) (Some 10000) of
           Inl e \<Rightarrow> (Inl e, [])
         | Inr tools \<Rightarrow>
             (case fetch_cluster co pr_url tools st of
                Inl e \<Rightarrow> (Inl e, [FetchCluster])
              | Inr st1 \<Rightarrow>
                  (let base_clusters = state_get st1 ''base_clusters'' in
                   if \<not> truthy base_clusters
                   then (event (create_error_response ''No base_clusters found''), [FetchCluster])
                   else
                     (case parse_clusters event json_loads base_clusters of
                        Raise e \<Rightarrow> (Inl e, [FetchCluster])
                      | Yielded ev \<Rightarrow> (Inr ev, [FetchCluster])
                      | Continue (clusters_data, cs) \<Rightarrow>
                          (case py_iter cs of
                             Inl e \<Rightarrow> (Inl e, [FetchCluster])
                           | Inr cluster_list \<Rightarrow>
                               (case review_loop event co json_loads 0 cluster_list [] st1
                                       [FetchCluster] of
                                  (Raise e, tr) \<Rightarrow> (Inl e, tr)
                                | (Yielded ev, tr) \<Rightarrow> (Inr ev, tr)
                                | (Continue (all_reviews, st2), tr) \<Rightarrow>
                                    filter_and_post event co pr_url clusters_data all_reviews st2
                                      tr)))))))"

text \<open>
  The handler of the outer \<open>try\<close>, \<open>except Exception as e\<close>, builds the result for an
  unexpected error and yields it in an \<open>Event\<close> of its own; an exception of that \<open>Event\<close>
  leaves the function.
\<close>

fun unexpected :: "py_exn \<Rightarrow> response" where
  "unexpected (Raised k msg) = create_error_response (''Unexpected error: '' @ msg)"

text \<open>
  A run: \<open>Inr\<close> is the event that the run yields last, \<open>Inl\<close> the exception that the run
  raises without having yielded a result; with it, the stages invoked.
\<close>

definition run_async_impl ::
  "'e event_ctor \<Rightarrow> collaborators \<Rightarrow> loads \<Rightarrow> state \<Rightarrow> (py_exn + 'e) \<times> stage list" where
  "run_async_impl event co json_loads st =
     (case try_body event co json_loads st of
        (Inr ev, tr) \<Rightarrow> (Inr ev, tr)
      | (Inl e, tr) \<Rightarrow> (event (unexpected e), tr))"

section \<open>The filesystem tools (tools/grep_tool.py)\<close>

subsection \<open>\<open>fnmatch\<close>\<close>

text \<open>
  \<open>fnmatch.translate\<close> turns a pattern into a regular expression: \<open>*\<close> any text, \<open>?\<close> any
  character, \<open>[seq]\<close> a character class, every other character itself. The tokens below
  are the pieces of that expression. The text between the brackets of a class is cut into
  chunks at the hyphens that make ranges (the first character, or the first two after
  \<open>!\<close>, and the two characters after a hyphen are not looked at); a range whose ends are
  in descending order is removed with its ends; the last character of a chunk and the first
  of the next are the ends of a range.
\<close>

datatype gtok = Star | AnyChar | Lit char | Never | CharClass bool "string list"

fun split_ranges :: "nat \<Rightarrow> string \<Rightarrow> string \<Rightarrow> string list" where
  "split_ranges skip acc [] = [acc]"
| "split_ranges skip acc (c # s) =
     (if skip = 0 \<and> c = CHR ''-'' then acc # split_ranges 2 [] s
      else split_ranges (skip - 1) (acc @ [c]) s)"

fun drop_empty_ranges :: "string list \<Rightarrow> string list" where
  "drop_empty_ranges [] = []"
| "drop_empty_ranges [a] = [a]"
| "drop_empty_ranges (a # b # rest) =
     (case drop_empty_ranges (b # rest) of
        [] \<Rightarrow> [a]
      | b' # others \<Rightarrow>
          if a \<noteq> [] \<and> b' \<noteq> [] \<and> (of_char (last a) :: nat) > of_char (hd b')
          then (butlast a @ tl b') # others
          else a # b' # others)"

definition chunks_of :: "string \<Rightarrow> string list" where
  "chunks_of stuff =
     (if CHR ''-'' \<notin> set stuff then [stuff]
      else
        (let cs = split_ranges (if hd stuff = CHR ''!'' then 2 else 1) [] stuff;
             cs' = (if last cs = [] \<and> 2 \<le> length cs
                    then butlast (butlast cs) @ [last (butlast cs) @ ''-'']
                    else cs)
         in drop_empty_ranges cs'))"

definition class_tok :: "string \<Rightarrow> gtok" where
  "class_tok stuff =
     (let cs = chunks_of stuff in
      if cs = [Nil] then Never
      else if cs = [''!''] then AnyChar
      else if hd cs \<noteq> [] \<and> hd (hd cs) = CHR ''!'' then CharClass True (tl (hd cs) # tl cs)
      else CharClass False cs)"

text \<open>The text of a class and what follows its closing bracket, if there is one.\<close>

definition find_close :: "string \<Rightarrow> (string \<times> string) option" where
  "find_close rest =
     (let j0 = (if rest \<noteq> [] \<and> hd rest = CHR ''!'' then 1 else 0);
          j1 = (if j0 < length rest \<and> rest ! j0 = CHR '']'' then Suc j0 else j0);
          j = j1 + length (takeWhile (\<lambda>c. c \<noteq> CHR '']'') (drop j1 rest))
      in if j \<ge> length rest then None else Some (take j rest, drop (Suc j) rest))"

function translate :: "string \<Rightarrow> gtok list" where
  "translate [] = []"
| "translate (c # rest) =
     (if c = CHR ''*'' then
        (let ts = translate rest in if ts \<noteq> [] \<and> hd ts = Star then ts else Star # ts)
      else if c = CHR ''?'' then AnyChar # translate rest
      else if c = CHR ''['' then
        (case find_close rest of
           None \<Rightarrow> Lit CHR ''['' # translate rest
         | Some (stuff, rest') \<Rightarrow> class_tok stuff # translate rest')
      else Lit c # translate rest)"
  by pat_completeness auto
termination
  by (relation "measure length") (auto simp: find_close_def Let_def less_Suc_eq_le split: if_splits)

fun in_chunks :: "char \<Rightarrow> string list \<Rightarrow> bool" where
  "in_chunks c [] = False"
| "in_chunks c [a] = (c \<in> set a)"
| "in_chunks c (a # b # rest) =
     (c \<in> set (butlast a)
      \<or> (a \<noteq> [] \<and> b \<noteq> [] \<and> (of_char (last a) :: nat) \<le> of_char c \<and> (of_char c :: nat) \<le> of_char (hd b))
      \<or> in_chunks c (tl b # rest))"

fun tok_matches :: "gtok \<Rightarrow> char \<Rightarrow> bool" where
  "tok_matches AnyChar c = True"
| "tok_matches (Lit d) c = (c = d)"
| "tok_matches (CharClass negated cs) c = (negated \<noteq> in_chunks c cs)"
| "tok_matches Never c = False"
| "tok_matches Star c = True"

text \<open>The match of the whole text against the expression.\<close>

fun gmatch :: "gtok list \<Rightarrow> string \<Rightarrow> bool" where
  "gmatch [] s = (s = [])"
| "gmatch (Star # ts) [] = gmatch ts []"
| "gmatch (Star # ts) (c # s) = (gmatch ts (c # s) \<or> gmatch (Star # ts) s)"
| "gmatch (t # ts) [] = False"
| "gmatch (t # ts) (c # s) = (tok_matches t c \<and> gmatch ts s)"

definition fnmatchcase :: "string \<Rightarrow> string \<Rightarrow> bool" where
  "fnmatchcase name pat = gmatch (translate pat) name"

text \<open>\<open>os.path.normcase\<close> on POSIX returns its argument.\<close>

definition normcase :: "string \<Rightarrow> string" where
  "normcase s = s"

definition fnmatch :: "string \<Rightarrow> string \<Rightarrow> bool" where
  "fnmatch name pat = fnmatchcase (normcase name) (normcase pat)"

subsection \<open>Paths and the directory tree\<close>

text \<open>
  A \<open>pathlib\<close> path: its root (\<open>/\<close> for an absolute path, empty for a relative one) and its
  names. \<open>parents\<close> lists the nearest ancestor first.
\<close>

record path =
  anchor :: string
  names :: "string list"

definition str_path :: "path \<Rightarrow> string" where
  "str_path p =
     (if names p = [] then (if anchor p = [] then ''.'' else anchor p)
      else anchor p @ join ''/'' (names p))"

definition parents :: "path \<Rightarrow> path list" where
  "parents p = map (\<lambda>n. p\<lparr>names := take n (names p)\<rparr>) (rev [0..<length (names p)])"

definition child :: "path \<Rightarrow> string list \<Rightarrow> path" where
  "child p rel = p\<lparr>names := names p @ rel\<rparr>"

definition str_rel :: "string list \<Rightarrow> string" where
  "str_rel rel = (if rel = [] then ''.'' else join ''/'' rel)"

definition starts_with_dot :: "string \<Rightarrow> bool" where
  "starts_with_dot part = (case part of [] \<Rightarrow> False | c # _ \<Rightarrow> c = CHR ''.'')"

text \<open>
  The tree below \<open>/\<close>, with symbolic links followed: a regular file with what reading it
  as text gives (its content, or the exception), a directory with its entries in the order
  in which the system lists them, or something else (a device, a socket, a dangling link).
  A link to a directory is a directory without entries: it is listed and not descended into.
\<close>

datatype node = File "py_exn + string" | Dir "(string \<times> node) list" | Other

fun is_dir :: "node \<Rightarrow> bool" where
  "is_dir (Dir entries) = True"
| "is_dir n = False"

fun is_file :: "node \<Rightarrow> bool" where
  "is_file (File content) = True"
| "is_file n = False"

fun lookup :: "node \<Rightarrow> string list \<Rightarrow> node option" where
  "lookup n [] = Some n"
| "lookup (Dir entries) (x # xs) = (case map_of entries x of None \<Rightarrow> None | Some n \<Rightarrow> lookup n xs)"
| "lookup n (x # xs) = None"

text \<open>
  \<open>entry_at tree rel node\<close>: the tree has the entry \<open>node\<close> at the relative path \<open>rel\<close>, through
  directories all the way.
\<close>

fun entry_at :: "node \<Rightarrow> string list \<Rightarrow> node \<Rightarrow> bool"
and entry_in :: "(string \<times> node) list \<Rightarrow> string \<Rightarrow> string list \<Rightarrow> node \<Rightarrow> bool" where
  "entry_at n [] n' = (n = n')"
| "entry_at (Dir entries) (x # xs) n' = entry_in entries x xs n'"
| "entry_at (File content) (x # xs) n' = False"
| "entry_at Other (x # xs) n' = False"
| "entry_in [] x xs n' = False"
| "entry_in (e # rest) x xs n' = ((fst e = x \<and> entry_at (snd e) xs n') \<or> entry_in rest x xs n')"

text \<open>
  \<open>Path(path).resolve()\<close> depends on the current directory and on the links of the
  system: it is a parameter, and gives an absolute path.
\<close>

record world =
  resolve :: "string \<Rightarrow> path"
  fs :: node

record grep_tools =
  working_dir :: path

subsection \<open>The deny-list\<close>

definition BLACKLIST_PATTERNS :: "string list" where
  "BLACKLIST_PATTERNS =
    [''.git/*'', ''node_modules/*'', ''.next/*'', ''.turbo/*'', ''*.wasm'', ''*.woff2'',
     ''*.pack'', ''*.pack.gz'', ''*.tar.zst'', ''*.pyc'', ''__pycache__/*'', ''*.so'',
     ''*.dll'', ''*.dylib'', ''*.exe'', ''*.bin'', ''*.dat'', ''*.db'', ''*.sqlite'',
     ''*.sqlite3'', ''*.log'', ''*.cache'', ''*.tmp'', ''*.temp'', ''*.swp'', ''*.swo'',
     ''*.bak'', ''*.backup'', ''*.orig'', ''*.rej'', ''*.patch'', ''*.diff'', ''*.tar'',
     ''*.gz'', ''*.zip'', ''*.rar'', ''*.7z'', ''*.bz2'', ''*.xz'', ''*.lzma'', ''*.lz4'',
     ''*.zst'', ''*.tgz'', ''*.tbz2'', ''*.txz'', ''*.tlz'', ''*.tlz4'', ''*.tzst'',
     ''*.pdf'', ''*.docx'', ''*.doc'', ''*.xls'', ''*.xlsx'', ''*.ppt'', ''*.pptx'',
     ''*.png'', ''*.jpg'', ''*.jpeg'', ''*.gif'', ''*.bmp'', ''*.tiff'', ''*.ico'']"

definition should_skip_path :: "path \<Rightarrow> bool" where
  "should_skip_path p = list_ex (\<lambda>pattern. fnmatch (str_path p) pattern) BLACKLIST_PATTERNS"



subsection \<open>The checks that the three tools share\<close>

text \<open>\<open>self.working_dir not in resolved_path.parents and self.working_dir != resolved_path\<close>\<close>

definition outside :: "grep_tools \<Rightarrow> path \<Rightarrow> bool" where
  "outside self resolved_path =
     (working_dir self \<notin> set (parents resolved_path) \<and> working_dir self \<noteq> resolved_path)"

definition confinement_error :: "grep_tools \<Rightarrow> path \<Rightarrow> string" where
  "confinement_error self resolved_path =
     ''Error: '' @ str_path resolved_path @ '' is not a subdirectory of ''
       @ str_path (working_dir self) @ ''. Please provide a relative path, or a subdirectory of ''
       @ str_path (working_dir self) @ ''.''"

text \<open>The \<open>**kwargs\<close> of a call: each name with the \<open>repr\<close> of its value.\<close>

type_synonym kwargs = "(string \<times> string) list"

definition repr_kwargs :: "kwargs \<Rightarrow> string" where
  "repr_kwargs kw = ''{'' @ join '', '' (map (\<lambda>kv. repr_str (fst kv) @ '': '' @ snd kv) kw) @ ''}''"

subsection \<open>\<open>find_files\<close>\<close>

text \<open>The body of the loop over \<open>itertools.chain(dirs, files)\<close>, for one entry.\<close>

definition visit ::
  "(string \<Rightarrow> string \<Rightarrow> bool) \<Rightarrow> string \<Rightarrow> path \<Rightarrow> string list \<Rightarrow> string \<times> node
     \<Rightarrow> (bool \<times> string) list" where
  "visit matcher unix_pattern resolved_path rel entry =
     (let file_path = child resolved_path (rel @ [fst entry]) in
      if should_skip_path file_path then []
      else if list_ex starts_with_dot (rel @ [fst entry]) then []
      else if matcher (str_path file_path) unix_pattern
        then [(is_file (snd entry), str_rel (rel @ [fst entry]))]
      else [])"

text \<open>
  \<open>os.walk\<close>, top down: a directory is handled, then its subdirectories are walked in
  order. A directory deeper than \<open>depth\<close> is skipped by \<open>continue\<close> before its \<open>dirs\<close> are
  pruned, so all of its subdirectories are walked. The result lists the appends in order:
  \<open>True\<close> for \<open>file_matches\<close>, \<open>False\<close> for \<open>dir_matches\<close>.
\<close>

fun walk ::
  "(string \<Rightarrow> string \<Rightarrow> bool) \<Rightarrow> string \<Rightarrow> path \<Rightarrow> int \<Rightarrow> string list \<Rightarrow> node
     \<Rightarrow> (bool \<times> string) list"
and walk_dirs ::
  "(string \<Rightarrow> string \<Rightarrow> bool) \<Rightarrow> string \<Rightarrow> path \<Rightarrow> int \<Rightarrow> bool \<Rightarrow> string list
     \<Rightarrow> (string \<times> node) list \<Rightarrow> (bool \<times> string) list" where
  "walk matcher unix_pattern resolved_path depth rel (Dir entries) =
     (if int (length rel) > depth
      then walk_dirs matcher unix_pattern resolved_path depth False rel entries
      else
        (let dirs = filter (\<lambda>e. is_dir (snd e)
                                \<and> \<not> should_skip_path (child resolved_path (rel @ [fst e]))) entries;
             files = filter (\<lambda>e. \<not> is_dir (snd e)) entries
         in concat (map (visit matcher unix_pattern resolved_path rel) (dirs @ files))
            @ walk_dirs matcher unix_pattern resolved_path depth True rel entries))"
| "walk matcher unix_pattern resolved_path depth rel (File content) = []"
| "walk matcher unix_pattern resolved_path depth rel Other = []"
| "walk_dirs matcher unix_pattern resolved_path depth pruned rel [] = []"
| "walk_dirs matcher unix_pattern resolved_path depth pruned rel (e # rest) =
     (if is_dir (snd e)
         \<and> (pruned \<longrightarrow> \<not> should_skip_path (child resolved_path (rel @ [fst e])))
      then walk matcher unix_pattern resolved_path depth (rel @ [fst e]) (snd e)
      else [])
     @ walk_dirs matcher unix_pattern resolved_path depth pruned rel rest"

definition render_found :: "(bool \<times> string) list \<Rightarrow> string" where
  "render_found found =
     (let file_matches = map snd (filter fst found);
          dir_matches = map snd (filter (\<lambda>m. \<not> fst m) found);
          delim = [CHR 0x0A] @ ''  * '';
          files_part = (if length file_matches > 0 then delim @ join delim file_matches
                        else [CHR 0x0A] @ ''  No files found'');
          dirs_part = (if length dir_matches > 0 then delim @ join delim dir_matches
                       else [CHR 0x0A] @ ''  No directories found'')
      in ''    Files:'' @ files_part @ [CHR 0x0A, CHR 0x0A] @ ''    Directories:'' @ dirs_part
         @ [CHR 0x0A, CHR 0x0A] @ ''    '')"

text \<open>The function from the confinement check on, with the pattern it is given.\<close>

definition list_files ::
  "grep_tools \<Rightarrow> world \<Rightarrow> path \<Rightarrow> string \<Rightarrow> int \<Rightarrow> bool \<Rightarrow> py_exn + string" where
  "list_files self w resolved_path unix_pattern depth is_case_sensitive =
     (if outside self resolved_path then Inr (confinement_error self resolved_path)
      else
        (case lookup (fs w) (names resolved_path) of
           None \<Rightarrow> Inr (''Error: '' @ str_path resolved_path @ '' does not exist'')
         | Some (File content) \<Rightarrow>
             Inr (''Error: '' @ str_path resolved_path @ '' is a file, not a directory'')
         | Some tree \<Rightarrow>
             (let matcher = (if is_case_sensitive then fnmatchcase else fnmatch)
              in Inr (render_found (walk matcher unix_pattern resolved_path depth [] tree)))))"

definition find_files ::
  "grep_tools \<Rightarrow> world \<Rightarrow> string \<Rightarrow> string \<Rightarrow> int \<Rightarrow> bool \<Rightarrow> kwargs \<Rightarrow> py_exn + string" where
  "find_files self w path unix_pattern depth is_case_sensitive kw =
     (if kw \<noteq> []
      then Inr (''Error: Unexpected arguments: '' @ repr_kwargs kw @ [CHR 0x0A]
                @ ''Supported args: path, pattern, depth, is_case_sensitive'')
      else
        (let resolved_path = resolve w path;
             unix_pattern' = (if CHR ''*'' \<notin> set unix_pattern
                              then ''*'' @ unix_pattern @ ''*'' else unix_pattern)
         in list_files self w resolved_path unix_pattern' depth is_case_sensitive))"

subsection \<open>\<open>find_text_in_files\<close>\<close>

text \<open>
  \<open>resolved_path.rglob("*")\<close>: the entries of a directory, then the same for each of its
  subdirectories in order; every entry comes with its names relative to the start.
\<close>

fun rglob :: "string list \<Rightarrow> node \<Rightarrow> (string list \<times> node) list"
and rglob_dirs :: "string list \<Rightarrow> (string \<times> node) list \<Rightarrow> (string list \<times> node) list" where
  "rglob rel (Dir entries) = map (\<lambda>e. (rel @ [fst e], snd e)) entries @ rglob_dirs rel entries"
| "rglob rel (File content) = []"
| "rglob rel Other = []"
| "rglob_dirs rel [] = []"
| "rglob_dirs rel (e # rest) =
     (if is_dir (snd e) then rglob (rel @ [fst e]) (snd e) else []) @ rglob_dirs rel rest"

text \<open>Iterating over an open text file: the lines, each with its line end.\<close>

fun file_lines :: "string \<Rightarrow> string list" where
  "file_lines [] = []"
| "file_lines (c # s) =
     (if c = CHR 0x0A then [c] # file_lines s
      else (case file_lines s of [] \<Rightarrow> [c # Nil] | l # ls \<Rightarrow> (c # l) # ls))"

definition matches_in_file ::
  "config \<Rightarrow> (string \<Rightarrow> string \<Rightarrow> bool) \<Rightarrow> string \<Rightarrow> string \<Rightarrow> string list" where
  "matches_in_file cfg matcher unix_pattern text =
     map (\<lambda>il. ''Line '' @ str_int (int (fst il) + 1) @ '': ''
                @ (if int (length (snd il)) > find_text_char_limit cfg
                   then ''<Too many characters>'' else strip_chars py_space (snd il)))
       (filter (\<lambda>il. matcher (snd il) unix_pattern) (enumerate 0 (file_lines text)))"

text \<open>The files to search; \<open>iterdir\<close> raises on something that is not a directory.\<close>

definition search_paths ::
  "path \<Rightarrow> node \<Rightarrow> bool \<Rightarrow> py_exn + (string list \<times> node) list" where
  "search_paths resolved_path tree recursive =
     (if is_file tree then Inr [([], tree)]
      else if recursive then
        Inr (filter (\<lambda>p. \<not> list_ex starts_with_dot (fst p) \<and> is_file (snd p)
                          \<and> \<not> should_skip_path (child resolved_path (fst p)))
               (rglob [] tree))
      else
        (case tree of
           Dir entries \<Rightarrow>
             Inr (map (\<lambda>e. ([fst e], snd e))
                    (filter (\<lambda>e. is_file (snd e) \<and> \<not> should_skip_path (child resolved_path [fst e]))
                       entries))
         | _ \<Rightarrow> Inl (Raised OSError ''Not a directory'')))"

text \<open>One file of the loop: a file that cannot be read is skipped.\<close>

definition search_file ::
  "config \<Rightarrow> (string \<Rightarrow> string \<Rightarrow> bool) \<Rightarrow> string \<Rightarrow> string list \<times> node
     \<Rightarrow> (string \<times> string list) list" where
  "search_file cfg matcher unix_pattern p =
     (case snd p of
        File (Inr text) \<Rightarrow>
          (let found = matches_in_file cfg matcher unix_pattern text
           in if found \<noteq> [] then [(str_rel (fst p), found)] else [])
      | _ \<Rightarrow> [])"

text \<open>The function from the call of \<open>resolve\<close> on, with the pattern it is given.\<close>

definition search_text ::
  "config \<Rightarrow> grep_tools \<Rightarrow> world \<Rightarrow> string \<Rightarrow> string \<Rightarrow> bool \<Rightarrow> bool \<Rightarrow> py_exn + string" where
  "search_text cfg self w unix_pattern path recursive is_case_sensitive =
     (let resolved_path = resolve w path in
      if outside self resolved_path then Inr (confinement_error self resolved_path)
      else
        (case lookup (fs w) (names resolved_path) of
           None \<Rightarrow> Inr (''Error: '' @ str_path resolved_path @ '' does not exist'')
         | Some tree \<Rightarrow>
             (let matcher = (if is_case_sensitive then fnmatchcase else fnmatch) in
              case search_paths resolved_path tree recursive of
                Inl e \<Rightarrow> Inl e
              | Inr paths \<Rightarrow>
                  (let file_matches = concat (map (search_file cfg matcher unix_pattern) paths);
                       total_file_matches =
                         concat (map (\<lambda>fm. [CHR 0x0A] @ ''Pattern matches found in '' @ [CHR 0x27]
                                            @ fst fm @ [CHR 0x27] @ '':'' @ [CHR 0x0A]
                                            @ join [CHR 0x0A] (snd fm)) file_matches)
                   in if total_file_matches = [] then Inr ''Error: No matches found.''
                      else Inr total_file_matches))))"

definition find_text_in_files ::
  "config \<Rightarrow> grep_tools \<Rightarrow> world \<Rightarrow> string \<Rightarrow> string \<Rightarrow> bool \<Rightarrow> bool \<Rightarrow> kwargs
     \<Rightarrow> py_exn + string" where
  "find_text_in_files cfg self w unix_pattern path recursive is_case_sensitive kw =
     (if kw \<noteq> []
      then Inr (''Error: Unexpected arguments: '' @ repr_kwargs kw @ [CHR 0x0A]
                @ ''Supported args: path, pattern, recursive, is_case_sensitive'')
      else if unix_pattern = ''*''
      then Inr ''Error: pattern * is too broad. Please provide a more specific pattern''
      else
        (let unix_pattern' = (if CHR ''*'' \<notin> set unix_pattern
                              then ''*'' @ unix_pattern @ ''*'' else unix_pattern)
         in search_text cfg self w unix_pattern' path recursive is_case_sensitive))"

subsection \<open>\<open>read_file\<close>\<close>


subsection \<open>The log\<close>









section \<open>Concrete inputs\<close>

text \<open>A configuration and three child processes: one that succeeds, one that fails, one
  whose error stream is not UTF-8.\<close>

definition example_config :: config where
  "example_config = \<lparr>truncate_str = ''<TRUNCATED>'', find_text_char_limit = 200\<rparr>"

definition spawn_ok :: spawn where
  "spawn_ok command args = Inr \<lparr>returncode = 0, stdout = Utf8 ''hello world'', stderr = Utf8 []\<rparr>"

definition spawn_failed :: spawn where
  "spawn_failed command args = Inr \<lparr>returncode = 2, stdout = Utf8 [], stderr = Utf8 ''no such pr''\<rparr>"

definition spawn_garbled :: spawn where
  "spawn_garbled command args = Inr \<lparr>returncode = 1, stdout = Utf8 [], stderr = Malformed\<rparr>"

text \<open>
  Runs of the review workflow: a session state holding the entry URL; collaborators that
  commit three clusters, one finding for each cluster, a summary and a post confirmation
  (the review with the given index writes text that is not JSON instead); collaborators
  that commit an empty list of clusters; collaborators whose review of cluster 1 writes a
  number of 5000 digits; collaborators that commit nothing; a \<open>json.loads\<close> that rejects
  every text, and one that rejects a number of more than 4300 digits as \<open>json.loads\<close> does,
  with \<open>ValueError\<close>. An \<open>Event\<close> that takes any result dict as its content and holds it,
  and an \<open>Event\<close> that refuses every result dict.
\<close>

definition pr_state :: "string \<Rightarrow> state" where
  "pr_state url = Map.empty(''pr_url'' \<mapsto> PStr url)"

definition three_clusters :: pyval where
  "three_clusters = PDict [(''clusters'',
     PList [PDict [(''name'', PStr ''core'')], PDict [(''name'', PStr ''docs'')],
            PDict [(''name'', PStr ''tests'')]])]"

definition one_finding :: pyval where
  "one_finding = PDict [(''reviews'', PList [PDict [(''severity'', PStr ''high'')]])]"

definition scenario :: "nat option \<Rightarrow> collaborators" where
  "scenario bad =
     \<lparr>fetch_cluster = (\<lambda>u tools st. Inr (st(''base_clusters'' \<mapsto> three_clusters))),
      review_cluster = (\<lambda>i c st. Inr (st(''review_'' @ str_int (int i) \<mapsto>
                           (if bad = Some i then PStr ''not json'' else one_finding)))),
      filter_reviews = (\<lambda>rs st. Inr (st(''reviewed_review'' \<mapsto> PStr ''## Code Review Summary''))),
      post_comment = (\<lambda>u f tools st. Inr (st(''output'' \<mapsto> PStr ''gh pr comment 42'')))\<rparr>"

definition no_clusters :: collaborators where
  "no_clusters =
     \<lparr>fetch_cluster = (\<lambda>u tools st. Inr (st(''base_clusters'' \<mapsto> PDict [(''clusters'', PList [])]))),
      review_cluster = (\<lambda>i c st. Inr (st(''review_'' @ str_int (int i) \<mapsto> one_finding))),
      filter_reviews = (\<lambda>rs st. Inr (st(''reviewed_review'' \<mapsto> PStr ''## Code Review Summary''))),
      post_comment = (\<lambda>u f tools st. Inr (st(''output'' \<mapsto> PStr ''gh pr comment 42'')))\<rparr>"

definition long_number :: collaborators where
  "long_number =
     \<lparr>fetch_cluster = (\<lambda>u tools st. Inr (st(''base_clusters'' \<mapsto> three_clusters))),
      review_cluster = (\<lambda>i c st. Inr (st(''review_'' @ str_int (int i) \<mapsto>
                           (if i = 1 then PStr (replicate 5000 CHR ''1'') else one_finding)))),
      filter_reviews = (\<lambda>rs st. Inr (st(''reviewed_review'' \<mapsto> PStr ''## Code Review Summary''))),
      post_comment = (\<lambda>u f tools st. Inr (st(''output'' \<mapsto> PStr ''gh pr comment 42'')))\<rparr>"

definition idle :: collaborators where
  "idle = \<lparr>fetch_cluster = (\<lambda>u tools st. Inr st), review_cluster = (\<lambda>i c st. Inr st),
           filter_reviews = (\<lambda>rs st. Inr st), post_comment = (\<lambda>u f tools st. Inr st)\<rparr>"

definition no_json :: loads where
  "no_json s = Inl (Raised JSONDecodeError ''Expecting value'')"

definition digit_limit_json :: loads where
  "digit_limit_json s =
     (if list_all is_digit s \<and> length s > 4300
      then Inl (Raised ValueError
                  (''Exceeds the limit (4300 digits) for integer string conversion: value has ''
                   @ str_int (int (length s))
                   @ '' digits; use sys.set_int_max_str_digits() to increase the limit''))
      else Inl (Raised JSONDecodeError ''Expecting value''))"

definition plain_event :: "response event_ctor" where
  "plain_event d = Inr d"

definition strict_event :: "response event_ctor" where
  "strict_event d = Inl (Raised ValidationError ''validation error for Event'')"

text \<open>
  A working root \<open>/w\<close> with a project, a directory of build artifacts and an
  application with its installed packages in it, a tool set bound to that root, and a world
  that resolves a relative path against \<open>/w\<close> and an absolute one as it is.
\<close>

definition example_tree :: node where
  "example_tree = Dir [(''w'', Dir [(''proj'', Dir
       [(''src'', Dir [(''main.py'', File (Inr (''import os'' @ [CHR 0x0A] @ ''x = image1.png'' @ [CHR 0x0A]))),
                       (''deep'', Dir [(''z.py'', File (Inr []))])]),
        (''image1.png.txt'', File (Inr ''picture'')),
        (''a.pyc'', File (Inr [])),
        (''.git'', Dir [(''config'', File (Inr []))]),
        (''README'', File (Inr ''hello''))]),
      (''cache'', Dir [(''b.pyc'', File (Inr [])), (''pkg.tar.gz'', File (Inr [])),
                       (''.hidden'', Dir [(''notes.txt'', File (Inr ''n''))])]),
      (''app'', Dir [(''node_modules'', Dir [(''index.js'', File (Inr ''module.exports = 1''))])])]),
    (''etc'', Dir [(''passwd'', File (Inr ''root''))])]"

definition example_tools :: grep_tools where
  "example_tools = \<lparr>working_dir = \<lparr>anchor = ''/'', names = [''w'']\<rparr>\<rparr>"

definition example_resolve :: "string \<Rightarrow> path" where
  "example_resolve s =
     (case s of
        [] \<Rightarrow> \<lparr>anchor = ''/'', names = [''w'']\<rparr>
      | c # r \<Rightarrow>
          if c = CHR ''/'' then \<lparr>anchor = ''/'', names = filter (\<lambda>n. n \<noteq> []) (split_on CHR ''/'' r)\<rparr>
          else \<lparr>anchor = ''/'', names = ''w'' # filter (\<lambda>n. n \<noteq> []) (split_on CHR ''/'' s)\<rparr>)"

definition example_world :: world where
  "example_world = \<lparr>resolve = example_resolve, fs = example_tree\<rparr>"

section \<open>Properties of the command tools\<close>

lemma create_all_empty_iff: "create_all b cs = Inr [] \<longleftrightarrow> cs = []"
  by (cases cs) (auto split: sum.splits)

lemma create_tool_bound:
  "create_runtime_cli_tool command b = Inr tool \<Longrightarrow> tool = CliTool command b"
  by (auto simp: create_runtime_cli_tool_def split: if_splits)

lemma create_gh: "create_runtime_cli_tool ''gh'' b = Inr (CliTool ''gh'' b)"
  by (simp add: create_runtime_cli_tool_def defines_function_def ident_char_def ident_start_def)

text \<open>
  C3. A tool produced with budget \<open>b\<close>, on a child that exits with code 0 and whose output
  decodes to \<open>s\<close>: when \<open>b\<close> is set, not zero and less than the length of \<open>s\<close>, the result is
  \<open>s[:b]\<close> followed by the sentinel; when the length of \<open>s\<close> is at most \<open>b\<close>, the result is
  \<open>s\<close>; when \<open>b\<close> is unset or zero, the result is \<open>s\<close> whatever its length.
\<close>

theorem cli_truncation:
  assumes "create_runtime_cli_tool command b = Inr tool"
    and "run command args = Inr process"
    and "returncode process = 0"
    and "stdout process = Utf8 s"
  shows "(\<forall>n. b = Some n \<and> n \<noteq> 0 \<and> int (length s) > n \<longrightarrow>
            cli_call cfg run tool args = Inr (slice_to s n @ truncate_str cfg))
       \<and> (\<forall>n. b = Some n \<and> int (length s) \<le> n \<longrightarrow> cli_call cfg run tool args = Inr s)
       \<and> (b = None \<or> b = Some 0 \<longrightarrow> cli_call cfg run tool args = Inr s)"
proof -
  from assms(1) have t: "tool = CliTool command b" by (rule create_tool_bound)
  show ?thesis
    using assms(2-4) by (auto simp: t cli_call_def)
qed

theorem cli_truncation_witness:
  "create_runtime_cli_tool ''gh'' (Some 5) = Inr (CliTool ''gh'' (Some 5))
   \<and> spawn_ok ''gh'' [''pr''] = Inr \<lparr>returncode = 0, stdout = Utf8 ''hello world'', stderr = Utf8 []\<rparr>
   \<and> cli_call example_config spawn_ok (CliTool ''gh'' (Some 5)) [''pr''] = Inr ''hello<TRUNCATED>''
   \<and> cli_call example_config spawn_ok (CliTool ''gh'' (Some 11)) [''pr''] = Inr ''hello world''
   \<and> cli_call example_config spawn_ok (CliTool ''gh'' None) [''pr''] = Inr ''hello world''"
proof -
  let ?p = "\<lparr>returncode = 0, stdout = Utf8 ''hello world'', stderr = Utf8 []\<rparr>"
  have r: "spawn_ok ''gh'' [''pr''] = Inr ?p" by (simp add: spawn_ok_def)
  have a: "returncode ?p = 0" and b: "stdout ?p = Utf8 ''hello world''" by simp_all
  note t = cli_truncation [where run = spawn_ok and command = "''gh''" and args = "[''pr'']"
      and process = ?p and s = "''hello world''" and cfg = example_config, OF _ r a b]
  show ?thesis
    using t [of "Some 5", OF create_gh] t [of "Some 11", OF create_gh] t [of None, OF create_gh]
      create_gh [of "Some 5"] r
    by (simp add: slice_to_def example_config_def)
qed

text \<open>
  C4, as the claim states it, fails: a child that exits with a code other than 0 and whose
  error stream is not well-formed UTF-8 makes the call raise \<open>UnicodeDecodeError\<close>.
\<close>

theorem cli_nonzero_exit_counterexample:
  "spawn_garbled ''gh'' [''pr''] = Inr \<lparr>returncode = 1, stdout = Utf8 [], stderr = Malformed\<rparr>
   \<and> cli_call example_config spawn_garbled (CliTool ''gh'' (Some 5)) [''pr'']
       = Inl (Raised UnicodeDecodeError ''invalid utf-8'')"
  by (simp add: spawn_garbled_def cli_call_def)

text \<open>
  C4, amended. A tool invocation whose child exits with a code other than 0 and whose error
  stream decodes as UTF-8 does not raise: it returns the text \<open>Error: Command\<close>, the bound
  program, the argument list as Python prints it, the exit code and the decoded error
  stream, each of which is therefore a part of the text.
\<close>

theorem cli_nonzero_exit:
  assumes "create_runtime_cli_tool command b = Inr tool"
    and "run command args = Inr process"
    and "returncode process \<noteq> 0"
    and "stderr process = Utf8 err"
  shows "\<exists>text. cli_call cfg run tool args = Inr text
         \<and> text = ''Error: Command '' @ command @ '' '' @ repr_list args
                    @ '' failed with return code '' @ str_int (returncode process)
                    @ '' and stderr: '' @ err
         \<and> sublist command text \<and> sublist (repr_list args) text
         \<and> sublist (str_int (returncode process)) text \<and> suffix err text"
proof -
  let ?text = "''Error: Command '' @ command @ '' '' @ repr_list args
                    @ '' failed with return code '' @ str_int (returncode process)
                    @ '' and stderr: '' @ err"
  from assms(1) have t: "tool = CliTool command b" by (rule create_tool_bound)
  have e: "cli_call cfg run tool args = Inr ?text"
    using assms(2-4) by (simp add: t cli_call_def)
  have 1: "sublist command ?text"
    using sublist_appendI [of command "''Error: Command ''"] by simp
  have 2: "sublist (repr_list args) ?text"
    using sublist_appendI [of "repr_list args" "''Error: Command '' @ command @ '' ''"] by simp
  have 3: "sublist (str_int (returncode process)) ?text"
    using sublist_appendI [of "str_int (returncode process)"
        "''Error: Command '' @ command @ '' '' @ repr_list args @ '' failed with return code ''"]
    by simp
  have 4: "suffix err ?text"
    using suffixI [of ?text "''Error: Command '' @ command @ '' '' @ repr_list args
                    @ '' failed with return code '' @ str_int (returncode process)
                    @ '' and stderr: ''" err] by simp
  show ?thesis using e 1 2 3 4 by blast
qed

theorem cli_nonzero_exit_witness:
  "create_runtime_cli_tool ''gh'' (Some 5) = Inr (CliTool ''gh'' (Some 5))
   \<and> spawn_failed ''gh'' [''pr'', ''view''] = Inr \<lparr>returncode = 2, stdout = Utf8 [], stderr = Utf8 ''no such pr''\<rparr>
   \<and> cli_call example_config spawn_failed (CliTool ''gh'' (Some 5)) [''pr'', ''view'']
       = Inr (''Error: Command gh ['' @ [CHR 0x27] @ ''pr'' @ [CHR 0x27] @ '', '' @ [CHR 0x27] @ ''view''
              @ [CHR 0x27] @ ''] failed with return code 2 and stderr: no such pr'')"
proof -
  let ?p = "\<lparr>returncode = 2, stdout = Utf8 [], stderr = Utf8 ''no such pr''\<rparr>"
  have r: "spawn_failed ''gh'' [''pr'', ''view''] = Inr ?p" by (simp add: spawn_failed_def)
  have a: "returncode ?p \<noteq> 0" and b: "stderr ?p = Utf8 ''no such pr''" by simp_all
  have d: "str_int 2 = ''2''"
    by (simp add: str_int_def digits_of.simps digit_char_def)
  have l: "repr_list [''pr'', ''view'']
      = ''['' @ [CHR 0x27] @ ''pr'' @ [CHR 0x27] @ '', '' @ [CHR 0x27] @ ''view'' @ [CHR 0x27] @ '']''"
    by (simp add: repr_list_def repr_str_def repr_char_def printable_def Let_def)
  show ?thesis
    using cli_nonzero_exit [where run = spawn_failed and command = "''gh''" and args = "[''pr'', ''view'']"
        and process = ?p and err = "''no such pr''" and cfg = example_config and b = "Some 5",
        OF create_gh r a b] create_gh [of "Some 5"] r
    by (simp add: d l)
qed

text \<open>
  C10. \<open>get_bash_tool\<close> with \<open>allowed_commands\<close> left at its default \<open>None\<close> raises
  \<open>TypeError\<close>; it returns the empty list of tools exactly for an explicit empty list.
\<close>

theorem get_bash_tool_default:
  "get_bash_tool None b
     = Inl (Raised TypeError (CHR 0x27 # ''NoneType'' @ CHR 0x27 # '' object is not iterable''))
   \<and> (get_bash_tool allowed_commands b = Inr [] \<longleftrightarrow> allowed_commands = Some [])"
  by (cases allowed_commands) (simp_all add: create_all_empty_iff)

theorem get_bash_tool_default_witness:
  "get_bash_tool None (Some 10000)
     = Inl (Raised TypeError (CHR 0x27 # ''NoneType'' @ CHR 0x27 # '' object is not iterable''))
   \<and> get_bash_tool (Some []) (Some 10000) = Inr []
   \<and> get_bash_tool (Some [''gh'']) (Some 10000) \<noteq> Inr []"
  using get_bash_tool_default [of "Some 10000" "Some []"]
    get_bash_tool_default [of "Some 10000" "Some [''gh'']"]
  by simp

section \<open>Properties of the review workflow\<close>

lemma unexpected_is_error: "\<exists>m. unexpected e = create_error_response m"
  by (cases e) auto

lemma gh_tools: "get_bash_tool (Some [''gh'']) b = Inr [CliTool ''gh'' b]"
  by (simp add: create_gh)

lemma yield_return_yielded:
  "yield_return event d = Yielded ev \<longleftrightarrow> event d = Inr ev"
  by (simp add: yield_return_def split: sum.splits)

lemma yield_return_continue: "yield_return event d \<noteq> Continue x"
  by (simp add: yield_return_def split: sum.splits)

lemma parse_except_yielded:
  "parse_except event e = Yielded ev \<Longrightarrow> event (create_error_response ''No clusters found'') = Inr ev"
  by (cases e) (auto simp: yield_return_yielded split: if_splits)

lemma parse_except_continue: "parse_except event e \<noteq> Continue x"
  by (cases e) (auto simp: yield_return_continue)

lemma parse_clusters_yielded:
  "parse_clusters event jl b = Yielded ev \<Longrightarrow> event (create_error_response ''No clusters found'') = Inr ev"
  by (auto simp: parse_clusters_def dest: parse_except_yielded split: sum.splits bool.splits)

lemma py_subscript_dict:
  "py_subscript v k = Inr x \<Longrightarrow> \<exists>kvs. v = PDict kvs \<and> map_of kvs k = Some x"
  by (cases v) (auto split: option.splits)

lemma parse_clusters_continue:
  "parse_clusters event jl b = Continue (cd, cs)
   \<Longrightarrow> \<exists>kvs. cd = PDict kvs \<and> map_of kvs ''clusters'' = Some cs"
  by (auto simp: parse_clusters_def parse_except_continue dest: py_subscript_dict
      split: sum.splits bool.splits)

lemma review_loop_yielded:
  "review_loop event co jl i cs acc st tr = (Yielded ev, tr')
   \<Longrightarrow> \<exists>m. event (create_error_response m) = Inr ev"
proof (induction cs arbitrary: i acc st tr)
  case Nil
  then show ?case by simp
next
  case (Cons c cs)
  then show ?case
    by (auto simp: Let_def yield_return_yielded split: if_splits sum.splits py_exn.splits)
qed

lemma review_loop_append:
  "review_loop event co jl i pre acc st tr = (Continue (acc', st'), tr') \<Longrightarrow>
   review_loop event co jl i (pre @ rest) acc st tr
     = review_loop event co jl (i + length pre) rest acc' st' tr'"
proof (induction pre arbitrary: i acc st tr)
  case Nil
  then show ?case by simp
next
  case (Cons c pre)
  then show ?case
    by (auto simp: Let_def yield_return_continue split: if_splits sum.splits py_exn.splits)
qed

lemma review_loop_trace:
  "review_loop event co jl i pre acc st tr = (Continue (acc', st'), tr') \<Longrightarrow>
   tr' = tr @ map ReviewCluster [i..<i + length pre] \<and> length acc' = length acc + length pre"
proof (induction pre arbitrary: i acc st tr)
  case Nil
  then show ?case by simp
next
  case (Cons c pre)
  from Cons.prems obtain rd st'' where
    "review_loop event co jl (Suc i) pre (acc @ [rd]) st'' (tr @ [ReviewCluster i])
       = (Continue (acc', st'), tr')"
    by (auto simp: Let_def yield_return_continue split: if_splits sum.splits py_exn.splits)
  from Cons.IH [OF this]
  have "tr' = (tr @ [ReviewCluster i]) @ map ReviewCluster [Suc i..<Suc i + length pre]"
    and "length acc' = length (acc @ [rd]) + length pre" by simp_all
  moreover have "[i..<i + length (c # pre)] = i # [Suc i..<Suc i + length pre]"
    by (simp add: upt_conv_Cons del: upt_Suc)
  ultimately show ?case by (simp del: upt_Suc)
qed

lemma filter_and_post_yielded:
  assumes "filter_and_post event co u cd rs st tr = (Inr ev, tr')"
  shows "(\<exists>m. event (create_error_response m) = Inr ev)
       \<or> (\<exists>s. truthy s
            \<and> event \<lparr>success = True, error = PNone, clusters = cd, reviews = PList rs, summary = s\<rparr>
                = Inr ev
            \<and> tr' = tr @ [FilterReviews, PostComment])"
  using assms
  by (auto simp: filter_and_post_def Let_def gh_tools simp del: get_bash_tool.simps
      split: sum.splits if_splits)

lemma try_body_yielded:
  assumes "try_body event co jl st = (Inr ev, tr)"
  shows "(\<exists>m. event (create_error_response m) = Inr ev)
       \<or> (\<exists>kvs cs items rs s. map_of kvs ''clusters'' = Some cs \<and> py_iter cs = Inr items
            \<and> length rs = length items \<and> truthy s
            \<and> event \<lparr>success = True, error = PNone, clusters = PDict kvs, reviews = PList rs,
                     summary = s\<rparr> = Inr ev
            \<and> tr = FetchCluster # map ReviewCluster [0..<length items] @ [FilterReviews, PostComment])"
proof -
  let ?u = "state_get st ''pr_url''"
  show ?thesis
  proof (cases "truthy ?u \<and> validate_pr_url ?u")
    case False
    then show ?thesis using assms by (auto simp: try_body_def Let_def split: if_splits)
  next
    case ok: True
    show ?thesis
    proof (cases "fetch_cluster co ?u [CliTool ''gh'' (Some 10000)] st")
      case (Inl e)
      then show ?thesis
        using assms ok by (auto simp: try_body_def Let_def gh_tools simp del: get_bash_tool.simps)
    next
      case (Inr st1)
      let ?b = "state_get st1 ''base_clusters''"
      show ?thesis
      proof (cases "truthy ?b")
        case False
        then show ?thesis
          using assms ok Inr by (auto simp: try_body_def Let_def gh_tools simp del: get_bash_tool.simps)
      next
        case b: True
        show ?thesis
        proof (cases "parse_clusters event jl ?b")
          case (Raise e)
          then show ?thesis
            using assms ok Inr b
            by (auto simp: try_body_def Let_def gh_tools simp del: get_bash_tool.simps)
        next
          case (Yielded ev')
          then show ?thesis
            using assms ok Inr b parse_clusters_yielded [OF Yielded]
            by (auto simp: try_body_def Let_def gh_tools simp del: get_bash_tool.simps)
        next
          case pc: (Continue p)
          obtain cd cs where p: "p = (cd, cs)" by (cases p)
          from pc p parse_clusters_continue obtain kvs where
            cd: "cd = PDict kvs" "map_of kvs ''clusters'' = Some cs" by blast
          show ?thesis
          proof (cases "py_iter cs")
            case (Inl e)
            then show ?thesis
              using assms ok Inr b pc p
              by (auto simp: try_body_def Let_def gh_tools simp del: get_bash_tool.simps)
          next
            case it: (Inr items)
            obtain x t2 where lp: "review_loop event co jl 0 items [] st1 [FetchCluster] = (x, t2)"
              by (cases "review_loop event co jl 0 items [] st1 [FetchCluster]")
            show ?thesis
            proof (cases x)
              case (Raise e)
              then show ?thesis
                using assms ok Inr b pc p it lp
                by (auto simp: try_body_def Let_def gh_tools simp del: get_bash_tool.simps)
            next
              case (Yielded ev')
              with lp have "review_loop event co jl 0 items [] st1 [FetchCluster] = (Yielded ev', t2)"
                by simp
              then have "\<exists>m. event (create_error_response m) = Inr ev'"
                by (rule review_loop_yielded)
              then show ?thesis
                using assms ok Inr b pc p it lp Yielded
                by (auto simp: try_body_def Let_def gh_tools simp del: get_bash_tool.simps)
            next
              case (Continue q)
              obtain rs st2 where q: "q = (rs, st2)" by (cases q)
              from lp Continue q review_loop_trace [of event co jl 0 items "[]" st1 "[FetchCluster]" rs st2 t2]
              have t2: "t2 = FetchCluster # map ReviewCluster [0..<length items]"
                and rs: "length rs = length items" by simp_all
              have "filter_and_post event co ?u cd rs st2 t2 = (Inr ev, tr)"
                using assms ok Inr b pc p it lp Continue q
                by (auto simp: try_body_def Let_def gh_tools simp del: get_bash_tool.simps)
              from filter_and_post_yielded [OF this] show ?thesis
              proof
                assume "\<exists>m. event (create_error_response m) = Inr ev"
                then show ?thesis by (rule disjI1)
              next
                assume "\<exists>s. truthy s
                    \<and> event \<lparr>success = True, error = PNone, clusters = cd, reviews = PList rs,
                             summary = s\<rparr> = Inr ev
                    \<and> tr = t2 @ [FilterReviews, PostComment]"
                then obtain s where "truthy s"
                  and "event \<lparr>success = True, error = PNone, clusters = PDict kvs,
                         reviews = PList rs, summary = s\<rparr> = Inr ev"
                  and "tr = FetchCluster # map ReviewCluster [0..<length items]
                            @ [FilterReviews, PostComment]"
                  using cd(1) t2 by auto
                with cd(2) it rs show ?thesis by blast
              qed
            qed
          qed
        qed
      qed
    qed
  qed
qed

lemma run_yielded:
  assumes "run_async_impl event co jl st = (Inr ev, tr)"
  shows "(\<exists>m. event (create_error_response m) = Inr ev)
       \<or> (\<exists>kvs cs items rs s. map_of kvs ''clusters'' = Some cs \<and> py_iter cs = Inr items
            \<and> length rs = length items \<and> truthy s
            \<and> event \<lparr>success = True, error = PNone, clusters = PDict kvs, reviews = PList rs,
                     summary = s\<rparr> = Inr ev
            \<and> tr = FetchCluster # map ReviewCluster [0..<length items] @ [FilterReviews, PostComment])"
proof -
  obtain x t where tb: "try_body event co jl st = (x, t)"
    by (cases "try_body event co jl st")
  show ?thesis
  proof (cases x)
    case (Inl e)
    with tb assms have "event (unexpected e) = Inr ev"
      by (simp add: run_async_impl_def)
    then show ?thesis using unexpected_is_error [of e] by auto
  next
    case (Inr ev')
    with tb assms have "try_body event co jl st = (Inr ev, tr)"
      by (simp add: run_async_impl_def)
    then show ?thesis by (rule try_body_yielded)
  qed
qed

text \<open>
  C5, as the claim states it, fails: when the first stage commits an empty list of
  clusters, no cluster is reviewed, the last two stages run, and the run yields a result
  with \<open>success\<close> true whose \<open>reviews\<close> is the empty list.
\<close>

theorem run_result_counterexample:
  "run_async_impl plain_event no_clusters no_json (pr_state ''https://github.com/acme/widgets/pull/42'')
     = (Inr \<lparr>success = True, error = PNone, clusters = PDict [(''clusters'', PList [])],
              reviews = PList [], summary = PStr ''## Code Review Summary''\<rparr>,
        [FetchCluster, FilterReviews, PostComment])
   \<and> \<not> truthy (PList [])"
  by code_simp

text \<open>
  C5, amended. Every result that a run of the review workflow yields is the event that
  \<open>Event\<close> makes of a result dict of one of two shapes. When \<open>success\<close> is false, \<open>clusters\<close>,
  \<open>reviews\<close> and \<open>summary\<close> are \<open>None\<close> and \<open>error\<close> is a string. When \<open>success\<close> is true, \<open>error\<close>
  is \<open>None\<close>, \<open>summary\<close> is not empty, \<open>clusters\<close> is a dict that holds the key \<open>clusters\<close>,
  what is under that key can be iterated, and \<open>reviews\<close> is a list with one entry for each
  of its items, the empty list when there is none; the stages invoked are the first, one
  review for each item in order, the filter and the post.
\<close>

theorem run_result_invariant:
  assumes "run_async_impl event co json_loads st = (Inr ev, tr)"
  shows "\<exists>d. event d = Inr ev
          \<and> (\<not> success d \<longrightarrow>
                clusters d = PNone \<and> reviews d = PNone \<and> summary d = PNone
              \<and> (\<exists>m. error d = PStr m))
          \<and> (success d \<longrightarrow>
                error d = PNone \<and> truthy (summary d)
              \<and> (\<exists>kvs cs items rs.
                    clusters d = PDict kvs \<and> map_of kvs ''clusters'' = Some cs
                  \<and> py_iter cs = Inr items
                  \<and> reviews d = PList rs \<and> length rs = length items
                  \<and> tr = FetchCluster # map ReviewCluster [0..<length items]
                           @ [FilterReviews, PostComment]))"
  using run_yielded [OF assms]
proof
  assume "\<exists>m. event (create_error_response m) = Inr ev"
  then obtain m where "event (create_error_response m) = Inr ev" ..
  then show ?thesis
    by (intro exI [of _ "create_error_response m"]) (simp add: create_error_response_def)
next
  assume "\<exists>kvs cs items rs s. map_of kvs ''clusters'' = Some cs \<and> py_iter cs = Inr items
            \<and> length rs = length items \<and> truthy s
            \<and> event \<lparr>success = True, error = PNone, clusters = PDict kvs, reviews = PList rs,
                     summary = s\<rparr> = Inr ev
            \<and> tr = FetchCluster # map ReviewCluster [0..<length items] @ [FilterReviews, PostComment]"
  then obtain kvs cs items rs s where
    h: "map_of kvs ''clusters'' = Some cs" "py_iter cs = Inr items" "length rs = length items"
      "truthy s"
      "event \<lparr>success = True, error = PNone, clusters = PDict kvs, reviews = PList rs,
               summary = s\<rparr> = Inr ev"
      "tr = FetchCluster # map ReviewCluster [0..<length items] @ [FilterReviews, PostComment]"
    by blast
  show ?thesis
    by (intro exI [of _ "\<lparr>success = True, error = PNone, clusters = PDict kvs, reviews = PList rs,
               summary = s\<rparr>"]) (use h in simp)
qed

theorem run_result_invariant_witness:
  "run_async_impl plain_event (scenario None) no_json (pr_state ''https://github.com/acme/widgets/pull/42'')
     = (Inr \<lparr>success = True, error = PNone, clusters = three_clusters,
              reviews = PList [one_finding, one_finding, one_finding],
              summary = PStr ''## Code Review Summary''\<rparr>,
        [FetchCluster, ReviewCluster 0, ReviewCluster 1, ReviewCluster 2, FilterReviews, PostComment])
   \<and> (\<exists>d. plain_event d = Inr \<lparr>success = True, error = PNone, clusters = three_clusters,
              reviews = PList [one_finding, one_finding, one_finding],
              summary = PStr ''## Code Review Summary''\<rparr>
        \<and> success d \<and> error d = PNone \<and> truthy (summary d)
        \<and> (\<exists>kvs cs items rs. clusters d = PDict kvs \<and> map_of kvs ''clusters'' = Some cs
              \<and> py_iter cs = Inr items \<and> reviews d = PList rs \<and> length rs = length items
              \<and> length items = 3))
   \<and> run_async_impl plain_event (scenario (Some 0)) no_json (pr_state ''https://github.com/acme/widgets/pull/42'')
     = (Inr (create_error_response ''Review failed for cluster 0''), [FetchCluster, ReviewCluster 0])
   \<and> (\<exists>d. plain_event d = Inr (create_error_response ''Review failed for cluster 0'')
        \<and> \<not> success d \<and> clusters d = PNone \<and> reviews d = PNone \<and> summary d = PNone
        \<and> error d = PStr ''Review failed for cluster 0'')"
proof -
  let ?st = "pr_state ''https://github.com/acme/widgets/pull/42''"
  let ?R = "\<lparr>success = True, error = PNone, clusters = three_clusters,
              reviews = PList [one_finding, one_finding, one_finding],
              summary = PStr ''## Code Review Summary''\<rparr>"
  let ?T = "[FetchCluster, ReviewCluster 0, ReviewCluster 1, ReviewCluster 2, FilterReviews, PostComment]"
  let ?E = "create_error_response ''Review failed for cluster 0''"
  have a: "run_async_impl plain_event (scenario None) no_json ?st = (Inr ?R, ?T)"
    by code_simp
  have b: "run_async_impl plain_event (scenario (Some 0)) no_json ?st
           = (Inr ?E, [FetchCluster, ReviewCluster 0])"
    by code_simp
  from run_result_invariant [OF a] obtain d where
    d: "plain_event d = Inr ?R"
    and ds: "success d \<longrightarrow> error d = PNone \<and> truthy (summary d)
              \<and> (\<exists>kvs cs items rs. clusters d = PDict kvs \<and> map_of kvs ''clusters'' = Some cs
                  \<and> py_iter cs = Inr items \<and> reviews d = PList rs \<and> length rs = length items
                  \<and> ?T = FetchCluster # map ReviewCluster [0..<length items]
                           @ [FilterReviews, PostComment])"
    by blast
  from d have dR: "d = ?R" by (simp add: plain_event_def)
  then have "success d" by simp
  with ds obtain kvs cs items rs where
    k: "error d = PNone" "truthy (summary d)" "clusters d = PDict kvs"
      "map_of kvs ''clusters'' = Some cs" "py_iter cs = Inr items" "reviews d = PList rs"
      "length rs = length items"
    by blast
  have "rs = [one_finding, one_finding, one_finding]"
    using k(6) dR by simp
  then have "length items = 3"
    using k(7) by simp
  with k d \<open>success d\<close> have first: "\<exists>d. plain_event d = Inr ?R
        \<and> success d \<and> error d = PNone \<and> truthy (summary d)
        \<and> (\<exists>kvs cs items rs. clusters d = PDict kvs \<and> map_of kvs ''clusters'' = Some cs
              \<and> py_iter cs = Inr items \<and> reviews d = PList rs \<and> length rs = length items
              \<and> length items = 3)"
    by blast
  from run_result_invariant [OF b] obtain d' where
    d': "plain_event d' = Inr ?E"
    and df: "\<not> success d' \<longrightarrow> clusters d' = PNone \<and> reviews d' = PNone \<and> summary d' = PNone
              \<and> (\<exists>m. error d' = PStr m)"
    by blast
  from d' have dE: "d' = ?E" by (simp add: plain_event_def)
  then have n: "\<not> success d'" and e: "error d' = PStr ''Review failed for cluster 0''"
    by (simp_all add: create_error_response_def)
  with df d' have second: "\<exists>d. plain_event d = Inr ?E
        \<and> \<not> success d \<and> clusters d = PNone \<and> reviews d = PNone \<and> summary d = PNone
        \<and> error d = PStr ''Review failed for cluster 0''"
    by blast
  show ?thesis
    by (intro conjI) (fact a first b second)+
qed

text \<open>
  C2, as the claim states it, fails: the URL \<open>ftp://github.com/acme/widgets/pull/42\<close> does
  not begin with \<open>https://\<close>, yet it passes the validation and the first stage runs; the
  empty URL is answered with \<open>No pr_url provided\<close>; and with an \<open>Event\<close> that refuses a
  result dict as its content, the run for a refused URL raises and yields no result.
\<close>

theorem invalid_url_counterexample:
  "\<not> prefix ''https://'' ''ftp://github.com/acme/widgets/pull/42''
   \<and> validate_pr_url (PStr ''ftp://github.com/acme/widgets/pull/42'')
   \<and> run_async_impl plain_event idle no_json (pr_state ''ftp://github.com/acme/widgets/pull/42'')
       = (Inr (create_error_response ''No base_clusters found''), [FetchCluster])
   \<and> run_async_impl plain_event idle no_json (pr_state [])
       = (Inr (create_error_response ''No pr_url provided''), [])
   \<and> run_async_impl strict_event idle no_json (pr_state ''https://gitlab.com/acme/widgets/pull/42'')
       = (Inl (Raised ValidationError ''validation error for Event''), [])"
  by code_simp

text \<open>
  C2, amended. For an entry URL that is not empty and that \<open>urlparse\<close> rejects, or whose
  host is not \<open>github.com\<close>, or whose path is not of the four segments
  \<open>owner/repo/pull/number\<close> with a number that \<open>int\<close> accepts, no stage is invoked and the
  failure result with the error \<open>Invalid pr_url format\<close> is handed to \<open>Event\<close>: the run
  yields the event made of it. When \<open>Event\<close> raises instead, the handler hands the failure
  result for that exception to \<open>Event\<close> and the run yields the event made of it, and when
  \<open>Event\<close> raises again the run raises and yields no result. For the empty URL the same holds
  with the error \<open>No pr_url provided\<close>.
\<close>

theorem invalid_url_rejected:
  assumes "st ''pr_url'' = Some (PStr url)"
  shows "(url \<noteq> [] \<and>
           ((\<exists>e. urlparse url = Inl e) \<or>
            (\<exists>p. urlparse url = Inr p \<and>
               (netloc p \<noteq> ''github.com''
                \<or> length (split_on CHR ''/'' (strip_chars (\<lambda>c. c = CHR ''/'') (url_path p))) \<noteq> 4
                \<or> split_on CHR ''/'' (strip_chars (\<lambda>c. c = CHR ''/'') (url_path p)) ! 2 \<noteq> ''pull''
                \<or> \<not> int_parses (split_on CHR ''/'' (strip_chars (\<lambda>c. c = CHR ''/'') (url_path p)) ! 3))))
          \<longrightarrow> run_async_impl event co json_loads st
                = ((case event (create_error_response ''Invalid pr_url format'') of
                      Inr ev \<Rightarrow> Inr ev
                    | Inl e \<Rightarrow> event (unexpected e)), []))
       \<and> (url = [] \<longrightarrow> run_async_impl event co json_loads st
                = ((case event (create_error_response ''No pr_url provided'') of
                      Inr ev \<Rightarrow> Inr ev
                    | Inl e \<Rightarrow> event (unexpected e)), []))"
proof -
  have g: "state_get st ''pr_url'' = PStr url"
    using assms by (simp add: state_get_def)
  show ?thesis
    by (auto simp: run_async_impl_def try_body_def g validate_pr_url_def Let_def split: sum.splits)
qed

theorem invalid_url_rejected_witness:
  "pr_state ''https://gitlab.com/acme/widgets/pull/42'' ''pr_url'' = Some (PStr ''https://gitlab.com/acme/widgets/pull/42'')
   \<and> urlparse ''https://gitlab.com/acme/widgets/pull/42''
        = Inr \<lparr>scheme = ''https'', netloc = ''gitlab.com'', url_path = ''/acme/widgets/pull/42''\<rparr>
   \<and> run_async_impl plain_event (scenario None) no_json (pr_state ''https://gitlab.com/acme/widgets/pull/42'')
        = (Inr (create_error_response ''Invalid pr_url format''), [])
   \<and> run_async_impl strict_event (scenario None) no_json (pr_state ''https://gitlab.com/acme/widgets/pull/42'')
        = (Inl (Raised ValidationError ''validation error for Event''), [])
   \<and> pr_state [] ''pr_url'' = Some (PStr [])
   \<and> run_async_impl plain_event (scenario None) no_json (pr_state [])
        = (Inr (create_error_response ''No pr_url provided''), [])"
proof -
  let ?u = "''https://gitlab.com/acme/widgets/pull/42''"
  have s: "\<And>u. pr_state u ''pr_url'' = Some (PStr u)"
    by (simp add: pr_state_def)
  have p: "urlparse ?u = Inr \<lparr>scheme = ''https'', netloc = ''gitlab.com'', url_path = ''/acme/widgets/pull/42''\<rparr>"
    by code_simp
  show ?thesis
    using invalid_url_rejected [where st = "pr_state ?u" and url = ?u and event = plain_event
          and co = "scenario None" and json_loads = no_json, OF s]
      invalid_url_rejected [where st = "pr_state ?u" and url = ?u and event = strict_event
          and co = "scenario None" and json_loads = no_json, OF s]
      invalid_url_rejected [where st = "pr_state []" and url = "[]" and event = plain_event
          and co = "scenario None" and json_loads = no_json, OF s] s p
    by (simp add: plain_event_def strict_event_def)
qed

lemma review_step_fails:
  assumes "has_get cluster"
    and "review_cluster co i cluster st = Inr st'"
    and "\<not> truthy (state_get st' (''review_'' @ str_int (int i)))
         \<or> (\<exists>s k m. state_get st' (''review_'' @ str_int (int i)) = PStr s
               \<and> jl s = Inl (Raised k m) \<and> caught_inner k)"
  shows "review_loop event co jl i (cluster # post) acc st tr
         = (yield_return event (create_error_response (''Review failed for cluster '' @ str_int (int i))),
            tr @ [ReviewCluster i])"
  using assms by (auto simp: Let_def decode_value_def)

lemma review_step_raises:
  assumes "has_get cluster"
    and "review_cluster co i cluster st = Inr st'"
    and "truthy (state_get st' (''review_'' @ str_int (int i)))"
    and "state_get st' (''review_'' @ str_int (int i)) = PStr s"
    and "jl s = Inl (Raised k m)" and "\<not> caught_inner k"
  shows "review_loop event co jl i (cluster # post) acc st tr
         = (Raise (Raised k m), tr @ [ReviewCluster i])"
  using assms by (auto simp: Let_def decode_value_def)

lemma run_in_loop:
  assumes "truthy (state_get st ''pr_url'')"
    and "validate_pr_url (state_get st ''pr_url'')"
    and "fetch_cluster co (state_get st ''pr_url'') [CliTool ''gh'' (Some 10000)] st = Inr st1"
    and "truthy (state_get st1 ''base_clusters'')"
    and "parse_clusters event json_loads (state_get st1 ''base_clusters'') = Continue (clusters_data, cs)"
    and "py_iter cs = Inr (pre @ cluster # post)"
    and "review_loop event co json_loads 0 pre [] st1 [FetchCluster] = (Continue (all_reviews, st2), tr)"
  shows "try_body event co json_loads st
         = (case review_loop event co json_loads (length pre) (cluster # post) all_reviews st2
                   (FetchCluster # map ReviewCluster [0..<length pre]) of
              (Raise e, t) \<Rightarrow> (Inl e, t)
            | (Yielded ev, t) \<Rightarrow> (Inr ev, t)
            | (Continue (rs, st'), t) \<Rightarrow>
                filter_and_post event co (state_get st ''pr_url'') clusters_data rs st' t)"
proof -
  have t: "tr = FetchCluster # map ReviewCluster [0..<length pre]"
    using review_loop_trace [OF assms(7)] by simp
  have "review_loop event co json_loads 0 (pre @ cluster # post) [] st1 [FetchCluster]
        = review_loop event co json_loads (length pre) (cluster # post) all_reviews st2 tr"
    using review_loop_append [OF assms(7)] by simp
  then show ?thesis
    using assms(1-6) unfolding t
    by (simp add: try_body_def Let_def gh_tools del: get_bash_tool.simps upt_Suc review_loop.simps)
qed

lemma digit_limit_replicate:
  assumes "n > 4300" and "is_digit c"
  shows "digit_limit_json (replicate n c)
   = Inl (Raised ValueError (''Exceeds the limit (4300 digits) for integer string conversion: value has ''
                   @ str_int (int n)
                   @ '' digits; use sys.set_int_max_str_digits() to increase the limit''))"
  using assms by (simp add: digit_limit_json_def list_all_iff)

lemma long_number_rejected:
  "digit_limit_json (replicate 5000 CHR ''1'')
   = Inl (Raised ValueError ''Exceeds the limit (4300 digits) for integer string conversion: value has 5000 digits; use sys.set_int_max_str_digits() to increase the limit'')"
proof -
  have s: "str_int (int 5000) = ''5000''"
    by (simp add: str_int_def digits_of.simps digit_char_def)
  have d: "is_digit CHR ''1''" by (simp add: is_digit_def)
  have n: "(5000 :: nat) > 4300" by simp
  show ?thesis
    unfolding digit_limit_replicate [OF n d] s by simp
qed

lemma long_number_run:
  "run_async_impl plain_event long_number digit_limit_json
       (pr_state ''https://github.com/acme/widgets/pull/42'')
     = (Inr (create_error_response (''Unexpected error: Exceeds the limit (4300 digits) for integer string conversion: value has 5000 digits; use sys.set_int_max_str_digits() to increase the limit'')),
        [FetchCluster, ReviewCluster 0, ReviewCluster 1])"
proof -
  let ?st = "pr_state ''https://github.com/acme/widgets/pull/42''"
  let ?core = "PDict [(''name'', PStr ''core'')]"
  let ?docs = "PDict [(''name'', PStr ''docs'')]"
  let ?tests = "PDict [(''name'', PStr ''tests'')]"
  let ?st1 = "?st(''base_clusters'' \<mapsto> three_clusters)"
  let ?st2 = "?st1(''review_0'' \<mapsto> one_finding)"
  let ?st3 = "?st2(''review_1'' \<mapsto> PStr (replicate 5000 CHR ''1''))"
  have d: "str_int 0 = ''0''" "str_int 1 = ''1''"
    by (simp_all add: str_int_def digits_of.simps digit_char_def)
  have 1: "truthy (state_get ?st ''pr_url'')" by code_simp
  have 2: "validate_pr_url (state_get ?st ''pr_url'')" by code_simp
  have 3: "fetch_cluster long_number (state_get ?st ''pr_url'') [CliTool ''gh'' (Some 10000)] ?st = Inr ?st1"
    by (simp add: long_number_def)
  have 4: "truthy (state_get ?st1 ''base_clusters'')"
    by (simp add: state_get_def three_clusters_def)
  have 5: "parse_clusters plain_event digit_limit_json (state_get ?st1 ''base_clusters'')
           = Continue (three_clusters, PList [?core, ?docs, ?tests])"
    by (simp add: parse_clusters_def state_get_def three_clusters_def decode_value_def)
  have 6: "py_iter (PList [?core, ?docs, ?tests]) = Inr ([?core] @ ?docs # [?tests])"
    by simp
  have 7: "review_loop plain_event long_number digit_limit_json 0 [?core] [] ?st1 [FetchCluster]
           = (Continue ([one_finding], ?st2), [FetchCluster, ReviewCluster 0])"
    by (simp add: long_number_def state_get_def d decode_value_def one_finding_def Let_def)
  have 8: "has_get ?docs" by simp
  have 9: "review_cluster long_number (length [?core]) ?docs ?st2 = Inr ?st3"
    by (simp add: long_number_def d)
  have g: "state_get ?st3 (''review_'' @ str_int (int (length [?core]))) = PStr (replicate 5000 CHR ''1'')"
    by (simp add: state_get_def d)
  have t: "truthy (state_get ?st3 (''review_'' @ str_int (int (length [?core]))))"
    unfolding g by simp
  have n: "\<not> caught_inner ValueError" by (simp add: caught_inner_def)
  have "review_loop plain_event long_number digit_limit_json (length [?core]) (?docs # [?tests])
          [one_finding] ?st2 (FetchCluster # map ReviewCluster [0..<length [?core]])
        = (Raise (Raised ValueError ''Exceeds the limit (4300 digits) for integer string conversion: value has 5000 digits; use sys.set_int_max_str_digits() to increase the limit''),
           (FetchCluster # map ReviewCluster [0..<length [?core]]) @ [ReviewCluster (length [?core])])"
    using 8 9 t g long_number_rejected n by (rule review_step_raises)
  then show ?thesis
    unfolding run_async_impl_def run_in_loop [OF 1 2 3 4 5 6 7]
    by (simp add: plain_event_def del: review_loop.simps)
qed

text \<open>
  C6, as the claim states it, fails: when the review of cluster 1 leaves under \<open>review_1\<close> a
  number of 5000 digits, \<open>json.loads\<close> raises \<open>ValueError\<close>, which the handler of the loop
  does not catch; the run ends with the failure result of the outer handler, which names
  no cluster.
\<close>

theorem review_failure_counterexample:
  "run_async_impl plain_event long_number digit_limit_json
       (pr_state ''https://github.com/acme/widgets/pull/42'')
     = (Inr (create_error_response (''Unexpected error: Exceeds the limit (4300 digits) for integer string conversion: value has 5000 digits; use sys.set_int_max_str_digits() to increase the limit'')),
        [FetchCluster, ReviewCluster 0, ReviewCluster 1])
   \<and> \<not> sublist ''cluster'' ''Unexpected error: Exceeds the limit (4300 digits) for integer string conversion: value has 5000 digits; use sys.set_int_max_str_digits() to increase the limit''"
proof -
  have "\<not> sublist ''cluster'' ''Unexpected error: Exceeds the limit (4300 digits) for integer string conversion: value has 5000 digits; use sys.set_int_max_str_digits() to increase the limit''"
    by code_simp
  with long_number_run show ?thesis by (rule conjI)
qed

text \<open>
  C6, amended. A run that reaches the review loop with the clusters \<open>pre @ cluster # post\<close>,
  in which the clusters of \<open>pre\<close> have been reviewed, and in which the review of \<open>cluster\<close>
  (its index is the length of \<open>pre\<close>) returns. When that review leaves its key \<open>review_i\<close>
  absent or empty, or holding a text that \<open>json.loads\<close> rejects with \<open>JSONDecodeError\<close> or
  \<open>TypeError\<close>, the failure result that names that index is handed to \<open>Event\<close>, and the run
  yields the event made of it (when \<open>Event\<close> raises, the outer handler hands the failure
  result for that exception to \<open>Event\<close>). When \<open>json.loads\<close> raises another exception on
  the text, the outer handler hands the failure result \<open>Unexpected error\<close> with the message
  of that exception to \<open>Event\<close>; it names no cluster. In each of these cases the reviews
  invoked are those of the indices up to this one, none of a later cluster and no later
  stage, and the result handed to \<open>Event\<close> carries no review list.
\<close>

theorem review_failure_aborts:
  assumes "truthy (state_get st ''pr_url'')"
    and "validate_pr_url (state_get st ''pr_url'')"
    and "fetch_cluster co (state_get st ''pr_url'') [CliTool ''gh'' (Some 10000)] st = Inr st1"
    and "truthy (state_get st1 ''base_clusters'')"
    and "parse_clusters event json_loads (state_get st1 ''base_clusters'') = Continue (clusters_data, cs)"
    and "py_iter cs = Inr (pre @ cluster # post)"
    and "review_loop event co json_loads 0 pre [] st1 [FetchCluster] = (Continue (all_reviews, st2), tr)"
    and "has_get cluster"
    and "review_cluster co (length pre) cluster st2 = Inr st3"
    and "review_result = state_get st3 (''review_'' @ str_int (int (length pre)))"
  shows "(\<not> truthy review_result
          \<or> (\<exists>s k m. review_result = PStr s \<and> json_loads s = Inl (Raised k m) \<and> caught_inner k)
          \<longrightarrow> run_async_impl event co json_loads st
                = ((case event (create_error_response
                                  (''Review failed for cluster '' @ str_int (int (length pre)))) of
                      Inr ev \<Rightarrow> Inr ev
                    | Inl e \<Rightarrow> event (unexpected e)),
                   FetchCluster # map ReviewCluster [0..<Suc (length pre)])
              \<and> reviews (create_error_response
                           (''Review failed for cluster '' @ str_int (int (length pre)))) = PNone)
       \<and> (\<forall>s k m. truthy review_result \<and> review_result = PStr s
                \<and> json_loads s = Inl (Raised k m) \<and> \<not> caught_inner k
          \<longrightarrow> run_async_impl event co json_loads st
                = (event (create_error_response (''Unexpected error: '' @ m)),
                   FetchCluster # map ReviewCluster [0..<Suc (length pre)])
              \<and> reviews (create_error_response (''Unexpected error: '' @ m)) = PNone)
       \<and> (\<not> truthy review_result \<or> (\<exists>s e. review_result = PStr s \<and> json_loads s = Inl e)
          \<longrightarrow> snd (run_async_impl event co json_loads st)
                = FetchCluster # map ReviewCluster [0..<Suc (length pre)]
              \<and> (\<forall>j. length pre < j \<longrightarrow>
                    ReviewCluster j \<notin> set (snd (run_async_impl event co json_loads st)))
              \<and> FilterReviews \<notin> set (snd (run_async_impl event co json_loads st))
              \<and> PostComment \<notin> set (snd (run_async_impl event co json_loads st)))"
proof -
  let ?k = "length pre"
  let ?T = "FetchCluster # map ReviewCluster [0..<Suc ?k]"
  let ?F = "create_error_response (''Review failed for cluster '' @ str_int (int ?k))"
  note body = run_in_loop [OF assms(1-7)]
  have T: "(FetchCluster # map ReviewCluster [0..<?k]) @ [ReviewCluster ?k] = ?T"
    by simp
  have A: "run_async_impl event co json_loads st
           = ((case event ?F of Inr ev \<Rightarrow> Inr ev | Inl e \<Rightarrow> event (unexpected e)), ?T)"
    if "\<not> truthy review_result
        \<or> (\<exists>s k m. review_result = PStr s \<and> json_loads s = Inl (Raised k m) \<and> caught_inner k)"
  proof -
    have "review_loop event co json_loads ?k (cluster # post) all_reviews st2
            (FetchCluster # map ReviewCluster [0..<?k])
          = (yield_return event ?F, (FetchCluster # map ReviewCluster [0..<?k]) @ [ReviewCluster ?k])"
      using assms(8,9) that [unfolded assms(10)] by (rule review_step_fails)
    then show ?thesis
      unfolding T run_async_impl_def body
      by (simp add: yield_return_def del: review_loop.simps upt_Suc split: sum.splits)
  qed
  have B: "run_async_impl event co json_loads st
           = (event (create_error_response (''Unexpected error: '' @ m)), ?T)"
    if "truthy review_result" "review_result = PStr s" "json_loads s = Inl (Raised k m)"
      "\<not> caught_inner k" for s k m
  proof -
    have "review_loop event co json_loads ?k (cluster # post) all_reviews st2
            (FetchCluster # map ReviewCluster [0..<?k])
          = (Raise (Raised k m), (FetchCluster # map ReviewCluster [0..<?k]) @ [ReviewCluster ?k])"
      using assms(8,9) that [unfolded assms(10)] by (rule review_step_raises)
    then show ?thesis
      unfolding T run_async_impl_def body
      by (simp del: review_loop.simps upt_Suc)
  qed
  have C: "snd (run_async_impl event co json_loads st) = ?T"
    if "\<not> truthy review_result \<or> (\<exists>s e. review_result = PStr s \<and> json_loads s = Inl e)"
  proof (cases "truthy review_result")
    case False
    then show ?thesis using A by simp
  next
    case True
    with that obtain s e where s: "review_result = PStr s" "json_loads s = Inl e" by blast
    obtain k m where e: "e = Raised k m" by (cases e)
    show ?thesis
    proof (cases "caught_inner k")
      case True
      with s e have "run_async_impl event co json_loads st
           = ((case event ?F of Inr ev \<Rightarrow> Inr ev | Inl e \<Rightarrow> event (unexpected e)), ?T)"
        by (intro A) blast
      then show ?thesis by simp
    next
      case False
      with \<open>truthy review_result\<close> s e B show ?thesis by simp
    qed
  qed
  have D: "(\<forall>j. ?k < j \<longrightarrow> ReviewCluster j \<notin> set ?T) \<and> FilterReviews \<notin> set ?T \<and> PostComment \<notin> set ?T"
    by auto
  show ?thesis
  proof (intro conjI impI allI)
    fix s k m
    assume "truthy review_result \<and> review_result = PStr s
                \<and> json_loads s = Inl (Raised k m) \<and> \<not> caught_inner k"
    then show "run_async_impl event co json_loads st
                = (event (create_error_response (''Unexpected error: '' @ m)), ?T)"
      using B by blast
  qed (use A C D in \<open>simp_all add: create_error_response_def del: upt_Suc\<close>)
qed

theorem review_failure_aborts_witness:
  "validate_pr_url (state_get (pr_state ''https://github.com/acme/widgets/pull/42'') ''pr_url'')
   \<and> py_iter (PList [PDict [(''name'', PStr ''core'')], PDict [(''name'', PStr ''docs'')],
                      PDict [(''name'', PStr ''tests'')]])
       = Inr ([PDict [(''name'', PStr ''core'')]] @ PDict [(''name'', PStr ''docs'')]
                # [PDict [(''name'', PStr ''tests'')]])
   \<and> no_json ''not json'' = Inl (Raised JSONDecodeError ''Expecting value'')
   \<and> run_async_impl plain_event (scenario (Some 1)) no_json (pr_state ''https://github.com/acme/widgets/pull/42'')
       = (Inr (create_error_response ''Review failed for cluster 1''),
          [FetchCluster, ReviewCluster 0, ReviewCluster 1])
   \<and> ReviewCluster 2 \<notin> set (snd (run_async_impl plain_event (scenario (Some 1)) no_json
          (pr_state ''https://github.com/acme/widgets/pull/42'')))
   \<and> FilterReviews \<notin> set (snd (run_async_impl plain_event (scenario (Some 1)) no_json
          (pr_state ''https://github.com/acme/widgets/pull/42'')))
   \<and> run_async_impl plain_event long_number digit_limit_json (pr_state ''https://github.com/acme/widgets/pull/42'')
       = (Inr (create_error_response (''Unexpected error: Exceeds the limit (4300 digits) for integer string conversion: value has 5000 digits; use sys.set_int_max_str_digits() to increase the limit'')),
          [FetchCluster, ReviewCluster 0, ReviewCluster 1])"
proof -
  let ?st = "pr_state ''https://github.com/acme/widgets/pull/42''"
  let ?co = "scenario (Some 1)"
  let ?core = "PDict [(''name'', PStr ''core'')]"
  let ?docs = "PDict [(''name'', PStr ''docs'')]"
  let ?tests = "PDict [(''name'', PStr ''tests'')]"
  let ?st1 = "?st(''base_clusters'' \<mapsto> three_clusters)"
  let ?st2 = "?st1(''review_0'' \<mapsto> one_finding)"
  let ?st3 = "?st2(''review_1'' \<mapsto> PStr ''not json'')"
  let ?st3' = "?st2(''review_1'' \<mapsto> PStr (replicate 5000 CHR ''1''))"
  let ?msg = "''Exceeds the limit (4300 digits) for integer string conversion: value has 5000 digits; use sys.set_int_max_str_digits() to increase the limit''"
  have d: "str_int 0 = ''0''" "str_int 1 = ''1''"
    by (simp_all add: str_int_def digits_of.simps digit_char_def)
  have 1: "truthy (state_get ?st ''pr_url'')" by code_simp
  have 2: "validate_pr_url (state_get ?st ''pr_url'')" by code_simp
  have 3: "fetch_cluster ?co (state_get ?st ''pr_url'') [CliTool ''gh'' (Some 10000)] ?st = Inr ?st1"
    by (simp add: scenario_def)
  have 4: "truthy (state_get ?st1 ''base_clusters'')"
    by (simp add: state_get_def three_clusters_def)
  have 5: "parse_clusters plain_event jl (state_get ?st1 ''base_clusters'')
           = Continue (three_clusters, PList [?core, ?docs, ?tests])" for jl
    by (simp add: parse_clusters_def state_get_def three_clusters_def decode_value_def)
  have 6: "py_iter (PList [?core, ?docs, ?tests]) = Inr ([?core] @ ?docs # [?tests])"
    by simp
  have 7: "review_loop plain_event ?co no_json 0 [?core] [] ?st1 [FetchCluster]
           = (Continue ([one_finding], ?st2), [FetchCluster, ReviewCluster 0])"
    by (simp add: scenario_def state_get_def d decode_value_def one_finding_def Let_def)
  have 8: "has_get ?docs" by simp
  have 9: "review_cluster ?co (length [?core]) ?docs ?st2 = Inr ?st3"
    by (simp add: scenario_def d)
  have 10: "PStr ''not json'' = state_get ?st3 (''review_'' @ str_int (int (length [?core])))"
    by (simp add: state_get_def d)
  have j: "no_json ''not json'' = Inl (Raised JSONDecodeError ''Expecting value'')"
    by (simp add: no_json_def)
  have c: "caught_inner JSONDecodeError" by (simp add: caught_inner_def)
  note A = review_failure_aborts [where event = plain_event and co = ?co and json_loads = no_json
        and st = ?st and ?st1.0 = ?st1 and ?st2.0 = ?st2 and ?st3.0 = ?st3 and pre = "[?core]"
        and cluster = ?docs and post = "[?tests]" and all_reviews = "[one_finding]"
        and clusters_data = three_clusters and cs = "PList [?core, ?docs, ?tests]"
        and tr = "[FetchCluster, ReviewCluster 0]" and review_result = "PStr ''not json''",
        OF 1 2 3 4 5 6 7 8 9 10]
  have a1: "run_async_impl plain_event ?co no_json ?st
       = (Inr (create_error_response ''Review failed for cluster 1''),
          [FetchCluster, ReviewCluster 0, ReviewCluster 1])"
    using A j c by (simp add: d plain_event_def)
  have a2: "ReviewCluster 2 \<notin> set (snd (run_async_impl plain_event ?co no_json ?st))"
    and a3: "FilterReviews \<notin> set (snd (run_async_impl plain_event ?co no_json ?st))"
    using A j by simp_all
  have f3: "fetch_cluster long_number (state_get ?st ''pr_url'') [CliTool ''gh'' (Some 10000)] ?st = Inr ?st1"
    by (simp add: long_number_def)
  have f7: "review_loop plain_event long_number digit_limit_json 0 [?core] [] ?st1 [FetchCluster]
           = (Continue ([one_finding], ?st2), [FetchCluster, ReviewCluster 0])"
    by (simp add: long_number_def state_get_def d decode_value_def one_finding_def Let_def)
  have f9: "review_cluster long_number (length [?core]) ?docs ?st2 = Inr ?st3'"
    by (simp add: long_number_def d)
  have f10: "PStr (replicate 5000 CHR ''1'')
             = state_get ?st3' (''review_'' @ str_int (int (length [?core])))"
    by (simp add: state_get_def d)
  have n: "\<not> caught_inner ValueError" by (simp add: caught_inner_def)
  have t: "truthy (PStr (replicate 5000 CHR ''1''))" by simp
  note B = review_failure_aborts [where event = plain_event and co = long_number
        and json_loads = digit_limit_json
        and st = ?st and ?st1.0 = ?st1 and ?st2.0 = ?st2 and ?st3.0 = ?st3' and pre = "[?core]"
        and cluster = ?docs and post = "[?tests]" and all_reviews = "[one_finding]"
        and clusters_data = three_clusters and cs = "PList [?core, ?docs, ?tests]"
        and tr = "[FetchCluster, ReviewCluster 0]"
        and review_result = "PStr (replicate 5000 CHR ''1'')",
        OF 1 2 f3 4 5 6 f7 8 f9 f10, THEN conjunct2, THEN conjunct1, rule_format,
        of "replicate 5000 CHR ''1''" ValueError ?msg]
  have b1: "run_async_impl plain_event long_number digit_limit_json ?st
       = (Inr (create_error_response (''Unexpected error: '' @ ?msg)),
          [FetchCluster, ReviewCluster 0, ReviewCluster 1])"
    using B t long_number_rejected n by (simp add: plain_event_def)
  show ?thesis
    using 2 6 j a1 a2 a3 b1 by (intro conjI) simp_all
qed


section \<open>Properties of the filesystem tools\<close>

subsection \<open>Matching\<close>

lemma gmatch_star_here: "gmatch ts s \<Longrightarrow> gmatch (Star # ts) s"
  by (cases s) auto

lemma gmatch_star_skip: "gmatch (Star # ts) s \<Longrightarrow> gmatch (Star # ts) (pre @ s)"
  by (induction pre) auto

lemma gmatch_star_all: "gmatch [Star] s"
  by (induction s) auto

lemma gmatch_lits: "gmatch (map Lit p @ ts) (p @ s) = gmatch ts s"
  by (induction p) auto

lemma gmatch_lits_prefix: "gmatch (map Lit p @ ts) s \<Longrightarrow> prefix p s"
proof (induction p arbitrary: s)
  case Nil
  then show ?case by simp
next
  case (Cons c p)
  then show ?case by (cases s) auto
qed

lemma gmatch_substring: "gmatch (Star # map Lit p @ [Star]) s = sublist p s"
proof
  assume "gmatch (Star # map Lit p @ [Star]) s"
  then show "sublist p s"
  proof (induction s)
    case Nil
    then have "prefix p []" using gmatch_lits_prefix [of p "[Star]" "[]"] by simp
    then show ?case by simp
  next
    case (Cons c s)
    from Cons.prems have "gmatch (map Lit p @ [Star]) (c # s) \<or> gmatch (Star # map Lit p @ [Star]) s"
      by simp
    then show ?case
    proof
      assume "gmatch (map Lit p @ [Star]) (c # s)"
      then have "prefix p (c # s)" by (rule gmatch_lits_prefix)
      then show ?thesis by (rule prefix_imp_sublist)
    next
      assume "gmatch (Star # map Lit p @ [Star]) s"
      then have "sublist p s" by (rule Cons.IH)
      then show ?thesis by (simp add: sublist_Cons_right)
    qed
  qed
next
  assume "sublist p s"
  then obtain a b where s: "s = a @ p @ b" by (auto simp: sublist_def)
  have "gmatch (map Lit p @ [Star]) (p @ b)" by (simp add: gmatch_lits gmatch_star_all)
  then have "gmatch (Star # map Lit p @ [Star]) (p @ b)" by (rule gmatch_star_here)
  then show "gmatch (Star # map Lit p @ [Star]) s" unfolding s by (rule gmatch_star_skip)
qed

lemma translate_plain:
  "CHR ''*'' \<notin> set p \<Longrightarrow> CHR ''?'' \<notin> set p \<Longrightarrow> CHR ''['' \<notin> set p \<Longrightarrow>
   translate (p @ q) = map Lit p @ translate q"
  by (induction p) auto

lemma translate_star_end: "translate ''*'' = [Star]"
  by simp

lemma translate_star_first: "\<exists>ts. translate (CHR ''*'' # rest) = Star # ts"
  by (cases "translate rest") (auto simp: Let_def)

lemma translate_widened:
  assumes "CHR ''*'' \<notin> set p" "CHR ''?'' \<notin> set p" "CHR ''['' \<notin> set p" "p \<noteq> []"
  shows "translate (''*'' @ p @ ''*'') = Star # map Lit p @ [Star]"
proof -
  have "translate (p @ ''*'') = map Lit p @ [Star]"
    using translate_plain [OF assms(1-3), of "''*''"] by simp
  then show ?thesis
    using assms(4) by (cases p) (auto simp: Let_def)
qed

lemma fnmatchcase_widened:
  assumes "CHR ''*'' \<notin> set p" "CHR ''?'' \<notin> set p" "CHR ''['' \<notin> set p"
  shows "fnmatchcase s (''*'' @ p @ ''*'') = sublist p s"
proof (cases "p = []")
  case True
  then show ?thesis by (simp add: fnmatchcase_def gmatch_star_all)
next
  case False
  then show ?thesis
    using translate_widened [OF assms False] gmatch_substring [of p s]
    by (simp add: fnmatchcase_def)
qed

lemma fnmatch_widened:
  assumes "CHR ''*'' \<notin> set p" "CHR ''?'' \<notin> set p" "CHR ''['' \<notin> set p"
  shows "fnmatch s (''*'' @ p @ ''*'') = sublist p s"
  using fnmatchcase_widened [OF assms] by (simp add: fnmatch_def normcase_def)

subsection \<open>Paths\<close>

lemma join_append:
  "xs \<noteq> [] \<Longrightarrow> ys \<noteq> [] \<Longrightarrow> join sep (xs @ ys) = join sep xs @ sep @ join sep ys"
proof (induction sep xs rule: join.induct)
  case (1 sep)
  then show ?case by simp
next
  case (2 sep x)
  then show ?case by (cases ys) auto
next
  case (3 sep x y ys')
  then show ?case by simp
qed



subsection \<open>Confinement\<close>




subsection \<open>Widening of the pattern\<close>

text \<open>
  C7, as the claim states it, fails: the pattern \<open>image?.png\<close> holds the wildcard \<open>?\<close> and
  is wrapped all the same. As given it does not match the path of the file
  \<open>image1.png.txt\<close>, nor the line \<open>x = image1.png\<close>, and both are reported.
\<close>

theorem pattern_widening_counterexample:
  "CHR ''?'' \<in> set ''image?.png''
   \<and> \<not> fnmatch ''/w/proj/image1.png.txt'' ''image?.png''
   \<and> find_files example_tools example_world ''proj'' ''image?.png'' 1 False []
       = Inr (''    Files:'' @ [CHR 0x0A] @ ''  * image1.png.txt'' @ [CHR 0x0A, CHR 0x0A]
              @ ''    Directories:'' @ [CHR 0x0A] @ ''  No directories found''
              @ [CHR 0x0A, CHR 0x0A] @ ''    '')
   \<and> \<not> fnmatch (''x = image1.png'' @ [CHR 0x0A]) ''image?.png''
   \<and> find_text_in_files example_config example_tools example_world ''image?.png'' ''proj/src'' True False []
       = Inr ([CHR 0x0A] @ ''Pattern matches found in '' @ [CHR 0x27] @ ''main.py'' @ [CHR 0x27]
              @ '':'' @ [CHR 0x0A] @ ''Line 2: x = image1.png'')"
  by code_simp

text \<open>
  C7, amended. In \<open>find_files\<close> and in \<open>find_text_in_files\<close> the pattern is wrapped with a
  \<open>*\<close> on each end exactly when it holds no \<open>*\<close>; a pattern that holds a \<open>*\<close> is used as
  given (the bare \<open>*\<close> is refused by \<open>find_text_in_files\<close>). For a pattern without any of
  \<open>*\<close>, \<open>?\<close> and \<open>[\<close> the wrapped pattern matches exactly the texts that contain it.
\<close>

theorem pattern_widening:
  "(CHR ''*'' \<notin> set p \<longrightarrow>
       find_files self w path p depth is_case_sensitive []
         = list_files self w (resolve w path) (''*'' @ p @ ''*'') depth is_case_sensitive
     \<and> find_text_in_files cfg self w p path recursive is_case_sensitive []
         = search_text cfg self w (''*'' @ p @ ''*'') path recursive is_case_sensitive)
 \<and> (CHR ''*'' \<in> set p \<longrightarrow>
       find_files self w path p depth is_case_sensitive []
         = list_files self w (resolve w path) p depth is_case_sensitive
     \<and> (p \<noteq> ''*'' \<longrightarrow>
          find_text_in_files cfg self w p path recursive is_case_sensitive []
            = search_text cfg self w p path recursive is_case_sensitive))
 \<and> (CHR ''*'' \<notin> set p \<and> CHR ''?'' \<notin> set p \<and> CHR ''['' \<notin> set p \<longrightarrow>
       fnmatch s (''*'' @ p @ ''*'') = sublist p s)"
proof -
  have n: "CHR ''*'' \<notin> set p \<Longrightarrow> p \<noteq> ''*''" by auto
  have 1: "CHR ''*'' \<notin> set p \<longrightarrow>
       find_files self w path p depth is_case_sensitive []
         = list_files self w (resolve w path) (''*'' @ p @ ''*'') depth is_case_sensitive
     \<and> find_text_in_files cfg self w p path recursive is_case_sensitive []
         = search_text cfg self w (''*'' @ p @ ''*'') path recursive is_case_sensitive"
    using n by (simp add: find_files_def find_text_in_files_def Let_def)
  have 2: "CHR ''*'' \<in> set p \<longrightarrow>
       find_files self w path p depth is_case_sensitive []
         = list_files self w (resolve w path) p depth is_case_sensitive
     \<and> (p \<noteq> ''*'' \<longrightarrow>
          find_text_in_files cfg self w p path recursive is_case_sensitive []
            = search_text cfg self w p path recursive is_case_sensitive)"
    by (simp add: find_files_def find_text_in_files_def Let_def)
  have 3: "CHR ''*'' \<notin> set p \<and> CHR ''?'' \<notin> set p \<and> CHR ''['' \<notin> set p \<longrightarrow>
       fnmatch s (''*'' @ p @ ''*'') = sublist p s"
    using fnmatch_widened [of p s] by blast
  from 1 2 3 show ?thesis by blast
qed

theorem pattern_widening_witness:
  "CHR ''*'' \<notin> set ''README''
   \<and> find_files example_tools example_world ''proj'' ''README'' 1 False []
       = find_files example_tools example_world ''proj'' ''*README*'' 1 False []
   \<and> CHR ''*'' \<in> set ''*.py''
   \<and> find_files example_tools example_world ''proj'' ''*.py'' 1 False []
       = list_files example_tools example_world (resolve example_world ''proj'') ''*.py'' 1 False
   \<and> fnmatch ''/w/proj/README'' ''*README*''"
proof -
  have a: "CHR ''*'' \<notin> set ''README''" "CHR ''?'' \<notin> set ''README''" "CHR ''['' \<notin> set ''README''"
    by simp_all
  have b: "CHR ''*'' \<in> set ''*.py''" "CHR ''*'' \<in> set ''*README*''" by simp_all
  have c: "sublist ''README'' ''/w/proj/README''" by code_simp
  show ?thesis
    using pattern_widening [of "''README''" example_tools example_world "''proj''" 1 False
        example_config True "''/w/proj/README''"]
      pattern_widening [of "''*README*''" example_tools example_world "''proj''" 1 False
        example_config True "''/w/proj/README''"]
      pattern_widening [of "''*.py''" example_tools example_world "''proj''" 1 False
        example_config True "''/w/proj/README''"] a b c
    by simp
qed


subsection \<open>The walk of \<open>find_files\<close>\<close>

lemma visit_dot: "list_ex starts_with_dot (rel @ [fst e]) \<Longrightarrow> visit m p rp rel e = []"
  by (simp add: visit_def Let_def)

lemma visit_skipped: "should_skip_path (child rp (rel @ [fst e])) \<Longrightarrow> visit m p rp rel e = []"
  by (simp add: visit_def Let_def)

lemma walk_below_dot:
  "list_ex starts_with_dot rel \<Longrightarrow> walk m p rp d rel node = []"
  "list_ex starts_with_dot rel \<Longrightarrow> walk_dirs m p rp d pr rel es = []"
proof (induction m p rp d rel node and m p rp d pr rel es rule: walk_walk_dirs.induct)
  case (1 m p rp d rel entries)
  have "\<And>e. visit m p rp rel e = []"
    using "1.prems" by (intro visit_dot) simp
  then show ?case using 1 by (simp add: Let_def)
next
  case (5 m p rp d pr rel e rest)
  then show ?case by simp
qed simp_all

lemma walk_too_deep:
  "int (length rel) > d \<Longrightarrow> walk m p rp d rel node = []"
  "int (length rel) \<ge> d \<Longrightarrow> walk_dirs m p rp d pr rel es = []"
proof (induction m p rp d rel node and m p rp d pr rel es rule: walk_walk_dirs.induct)
  case (1 m p rp d rel entries)
  then show ?case by simp
next
  case (5 m p rp d pr rel e rest)
  then show ?case by simp
qed simp_all

lemma walk_dirs_nothing:
  "(\<And>e. e \<in> set es \<Longrightarrow> is_dir (snd e) \<Longrightarrow> (pr \<longrightarrow> \<not> should_skip_path (child rp (rel @ [fst e])))
        \<Longrightarrow> walk m p rp d (rel @ [fst e]) (snd e) = [])
   \<Longrightarrow> walk_dirs m p rp d pr rel es = []"
  by (induction es) auto

subsection \<open>The deny-list\<close>

lemma join_snoc: "join sep (xs @ [x]) = (if xs = [] then x else join sep xs @ sep @ x)"
  using join_append [of xs "[x]" sep] by simp

lemma str_path_child: "\<exists>pre. str_path (child rp (rel @ [nm])) = pre @ nm"
proof (cases "names rp @ rel = []")
  case True
  then have "str_path (child rp (rel @ [nm])) = anchor rp @ nm"
    by (simp add: str_path_def child_def)
  then show ?thesis by blast
next
  case False
  then have "str_path (child rp (rel @ [nm])) = (anchor rp @ join ''/'' (names rp @ rel) @ ''/'') @ nm"
    using join_snoc [of "''/''" "names rp @ rel" nm] by (simp add: str_path_def child_def)
  then show ?thesis by blast
qed

lemma blacklist_checked:
  "list_all (\<lambda>pattern. (pattern \<noteq> [] \<and> hd pattern = CHR ''*'')
       \<or> pattern \<in> set [''.git/*'', ''node_modules/*'', ''.next/*'', ''.turbo/*'', ''__pycache__/*''])
     BLACKLIST_PATTERNS"
  by code_simp

lemma blacklist_shapes:
  assumes "pattern \<in> set BLACKLIST_PATTERNS"
  shows "(\<exists>rest. pattern = CHR ''*'' # rest)
     \<or> pattern \<in> {''.git/*'', ''node_modules/*'', ''.next/*'', ''.turbo/*'', ''__pycache__/*''}"
proof -
  from blacklist_checked assms
  have "(pattern \<noteq> [] \<and> hd pattern = CHR ''*'')
       \<or> pattern \<in> set [''.git/*'', ''node_modules/*'', ''.next/*'', ''.turbo/*'', ''__pycache__/*'']"
    unfolding list_all_iff by blast
  then show ?thesis by (cases pattern) auto
qed

lemma dir_pattern_needs_slash:
  assumes "pattern \<in> {''.git/*'', ''node_modules/*'', ''.next/*'', ''.turbo/*'', ''__pycache__/*''}"
    and "fnmatch nm pattern"
  shows "CHR ''/'' \<in> set nm"
proof -
  from assms(1) obtain lits where l: "translate pattern = map Lit lits @ [Star]" "CHR ''/'' \<in> set lits"
  proof (elim insertE emptyE)
    assume "pattern = ''.git/*''"
    then have "translate pattern = map Lit ''.git/'' @ [Star]" by simp
    then show ?thesis using that [of "''.git/''"] by simp
  next
    assume "pattern = ''node_modules/*''"
    then have "translate pattern = map Lit ''node_modules/'' @ [Star]" by simp
    then show ?thesis using that [of "''node_modules/''"] by simp
  next
    assume "pattern = ''.next/*''"
    then have "translate pattern = map Lit ''.next/'' @ [Star]" by simp
    then show ?thesis using that [of "''.next/''"] by simp
  next
    assume "pattern = ''.turbo/*''"
    then have "translate pattern = map Lit ''.turbo/'' @ [Star]" by simp
    then show ?thesis using that [of "''.turbo/''"] by simp
  next
    assume "pattern = ''__pycache__/*''"
    then have "translate pattern = map Lit ''__pycache__/'' @ [Star]" by simp
    then show ?thesis using that [of "''__pycache__/''"] by simp
  qed
  from assms(2) have "gmatch (map Lit lits @ [Star]) nm"
    by (simp add: fnmatch_def fnmatchcase_def normcase_def l(1))
  then have "prefix lits nm" by (rule gmatch_lits_prefix)
  then show ?thesis using l(2) by (auto simp: prefix_def)
qed

lemma deny_listed_name:
  assumes "pattern \<in> set BLACKLIST_PATTERNS" and "fnmatch nm pattern" and "CHR ''/'' \<notin> set nm"
  shows "fnmatch (pre @ nm) pattern"
proof -
  define D where "D = {''.git/*'', ''node_modules/*'', ''.next/*'', ''.turbo/*'', ''__pycache__/*''}"
  have "pattern \<notin> D"
  proof
    assume "pattern \<in> D"
    then have "CHR ''/'' \<in> set nm"
      unfolding D_def using assms(2) by (rule dir_pattern_needs_slash)
    with assms(3) show False by contradiction
  qed
  moreover have "(\<exists>rest. pattern = CHR ''*'' # rest) \<or> pattern \<in> D"
    unfolding D_def by (rule blacklist_shapes [OF assms(1)])
  ultimately have "\<exists>rest. pattern = CHR ''*'' # rest" by blast
  then obtain rest where "pattern = CHR ''*'' # rest" ..
  moreover obtain ts where "translate (CHR ''*'' # rest) = Star # ts"
    using translate_star_first by blast
  ultimately show ?thesis
    using assms(2) gmatch_star_skip [of ts nm pre]
    by (simp add: fnmatch_def fnmatchcase_def normcase_def)
qed

lemma deny_listed_skipped:
  assumes "pattern \<in> set BLACKLIST_PATTERNS" and "fnmatch nm pattern" and "CHR ''/'' \<notin> set nm"
  shows "should_skip_path (child rp (rel @ [nm]))"
proof -
  obtain pre where "str_path (child rp (rel @ [nm])) = pre @ nm"
    using str_path_child by blast
  then show ?thesis
    using deny_listed_name [OF assms, of pre] assms(1)
    by (auto simp: should_skip_path_def list_ex_iff)
qed

lemma render_nothing:
  "render_found [] = ''    Files:'' @ [CHR 0x0A] @ ''  No files found'' @ [CHR 0x0A, CHR 0x0A]
      @ ''    Directories:'' @ [CHR 0x0A] @ ''  No directories found'' @ [CHR 0x0A, CHR 0x0A] @ ''    ''"
  by (simp add: render_found_def)

text \<open>
  Where the deny-list holds: \<open>find_files\<close> on a directory inside the working root, every
  entry of which is dot-prefixed or has a name that matches a pattern of the deny-list
  (what lies below these entries is not constrained; names hold no \<open>/\<close>). For every
  pattern, depth and case flag the result is the listing with the markers
  \<open>No files found\<close> and \<open>No directories found\<close>.
\<close>

theorem only_artifacts_none_found:
  assumes "\<not> outside self (resolve w path)"
    and "lookup (fs w) (names (resolve w path)) = Some (Dir entries)"
    and "\<forall>e \<in> set entries. CHR ''/'' \<notin> set (fst e)
           \<and> (starts_with_dot (fst e) \<or> (\<exists>pattern \<in> set BLACKLIST_PATTERNS. fnmatch (fst e) pattern))"
  shows "find_files self w path unix_pattern depth is_case_sensitive []
         = Inr (''    Files:'' @ [CHR 0x0A] @ ''  No files found'' @ [CHR 0x0A, CHR 0x0A]
                @ ''    Directories:'' @ [CHR 0x0A] @ ''  No directories found''
                @ [CHR 0x0A, CHR 0x0A] @ ''    '')"
proof -
  let ?rp = "resolve w path"
  have w: "walk m p ?rp depth [] (Dir entries) = []" for m p
  proof (cases "int (length ([] :: string list)) > depth")
    case True
    then show ?thesis by (rule walk_too_deep)
  next
    case False
    have v: "visit m p ?rp [] e = []" if "e \<in> set entries" for e
    proof (cases "starts_with_dot (fst e)")
      case True
      then show ?thesis by (intro visit_dot) simp
    next
      case False
      with assms(3) that obtain pattern where
        "pattern \<in> set BLACKLIST_PATTERNS" "fnmatch (fst e) pattern" "CHR ''/'' \<notin> set (fst e)"
        by blast
      then have "should_skip_path (child ?rp ([] @ [fst e]))" by (rule deny_listed_skipped)
      then show ?thesis by (rule visit_skipped)
    qed
    have d: "walk_dirs m p ?rp depth True [] entries = []"
    proof (rule walk_dirs_nothing)
      fix e
      assume e: "e \<in> set entries" "is_dir (snd e)"
        "True \<longrightarrow> \<not> should_skip_path (child ?rp ([] @ [fst e]))"
      have "starts_with_dot (fst e)"
      proof (rule ccontr)
        assume "\<not> starts_with_dot (fst e)"
        with assms(3) e(1) obtain pattern where
          "pattern \<in> set BLACKLIST_PATTERNS" "fnmatch (fst e) pattern" "CHR ''/'' \<notin> set (fst e)"
          by blast
        then have "should_skip_path (child ?rp ([] @ [fst e]))" by (rule deny_listed_skipped)
        with e(3) show False by simp
      qed
      then show "walk m p ?rp depth ([] @ [fst e]) (snd e) = []"
        by (intro walk_below_dot) simp
    qed
    have "concat (map (visit m p ?rp []) xs) = []" if "set xs \<subseteq> set entries" for xs
      using that v by (induction xs) auto
    then show ?thesis using False d v by (simp add: Let_def)
  qed
  show ?thesis
    using assms(1,2) w by (simp add: find_files_def list_files_def Let_def render_nothing)
qed

theorem only_artifacts_none_found_witness:
  "\<not> outside example_tools (resolve example_world ''cache'')
   \<and> lookup (fs example_world) (names (resolve example_world ''cache''))
       = Some (Dir [(''b.pyc'', File (Inr [])), (''pkg.tar.gz'', File (Inr [])),
                    (''.hidden'', Dir [(''notes.txt'', File (Inr ''n''))])])
   \<and> fnmatch ''b.pyc'' ''*.pyc'' \<and> fnmatch ''pkg.tar.gz'' ''*.gz'' \<and> starts_with_dot ''.hidden''
   \<and> find_files example_tools example_world ''cache'' ''notes'' 3 False []
       = Inr (''    Files:'' @ [CHR 0x0A] @ ''  No files found'' @ [CHR 0x0A, CHR 0x0A]
              @ ''    Directories:'' @ [CHR 0x0A] @ ''  No directories found''
              @ [CHR 0x0A, CHR 0x0A] @ ''    '')"
proof -
  let ?es = "[(''b.pyc'', File (Inr [])), (''pkg.tar.gz'', File (Inr [])),
              (''.hidden'', Dir [(''notes.txt'', File (Inr ''n''))])]"
  have 1: "\<not> outside example_tools (resolve example_world ''cache'')" by code_simp
  have 2: "lookup (fs example_world) (names (resolve example_world ''cache'')) = Some (Dir ?es)"
    by code_simp
  have a: "fnmatch ''b.pyc'' ''*.pyc''" and b: "fnmatch ''pkg.tar.gz'' ''*.gz''"
    and c: "starts_with_dot ''.hidden''"
    by code_simp+
  have m: "''*.pyc'' \<in> set BLACKLIST_PATTERNS" "''*.gz'' \<in> set BLACKLIST_PATTERNS"
    by (simp_all add: BLACKLIST_PATTERNS_def)
  have 3: "\<forall>e \<in> set ?es. CHR ''/'' \<notin> set (fst e)
           \<and> (starts_with_dot (fst e) \<or> (\<exists>pattern \<in> set BLACKLIST_PATTERNS. fnmatch (fst e) pattern))"
    using a b c m by auto
  show ?thesis
    using only_artifacts_none_found [where self = example_tools and w = example_world
        and path = "''cache''" and entries = ?es and unix_pattern = "''notes''" and depth = 3
        and is_case_sensitive = False, OF 1 2 3] 1 2 a b c
    by (intro conjI)
qed


text \<open>
  C8. The deny-list holds \<open>node_modules/*\<close>, and the walk is commented as skipping the
  deny-listed directories, but \<open>should_skip_path\<close> matches the patterns against the text of
  the absolute path, which no pattern of the form \<open>name/*\<close> matches. A directory that
  holds nothing but installed packages is therefore listed with its content: for the
  pattern \<open>*\<close> the result names the file and the directory, and carries neither marker.
\<close>

theorem deny_list_misses_build_cache:
  "''node_modules/*'' \<in> set BLACKLIST_PATTERNS
   \<and> fnmatch ''node_modules/index.js'' ''node_modules/*''
   \<and> lookup (fs example_world) (names (resolve example_world ''app''))
       = Some (Dir [(''node_modules'', Dir [(''index.js'', File (Inr ''module.exports = 1''))])])
   \<and> str_path (child (resolve example_world ''app'') [''node_modules'', ''index.js''])
       = ''/w/app/node_modules/index.js''
   \<and> \<not> should_skip_path (child (resolve example_world ''app'') [''node_modules''])
   \<and> \<not> should_skip_path (child (resolve example_world ''app'') [''node_modules'', ''index.js''])
   \<and> find_files example_tools example_world ''app'' ''*'' 1 False []
       = Inr (''    Files:'' @ [CHR 0x0A] @ ''  * node_modules/index.js'' @ [CHR 0x0A, CHR 0x0A]
              @ ''    Directories:'' @ [CHR 0x0A] @ ''  * node_modules''
              @ [CHR 0x0A, CHR 0x0A] @ ''    '')"
  by code_simp
lemma entry_in_iff: "entry_in es x xs n' \<longleftrightarrow> (\<exists>nd. (x, nd) \<in> set es \<and> entry_at nd xs n')"
  by (induction es) auto

lemma entry_at_step:
  "entry_at n (x # xs) n' \<longleftrightarrow> (\<exists>es nd. n = Dir es \<and> (x, nd) \<in> set es \<and> entry_at nd xs n')"
  by (cases n) (simp_all add: entry_in_iff)

lemma walk_dirs_iff:
  "(b, r) \<in> set (walk_dirs m p rp d pr rel es) \<longleftrightarrow>
   (\<exists>e \<in> set es. is_dir (snd e) \<and> (pr \<longrightarrow> \<not> should_skip_path (child rp (rel @ [fst e])))
       \<and> (b, r) \<in> set (walk m p rp d (rel @ [fst e]) (snd e)))"
  by (induction es) auto

lemma visit_iff:
  "(b, r) \<in> set (visit m p rp rel e) \<longleftrightarrow>
   (\<not> should_skip_path (child rp (rel @ [fst e])) \<and> \<not> list_ex starts_with_dot (rel @ [fst e])
    \<and> m (str_path (child rp (rel @ [fst e]))) p
    \<and> b = is_file (snd e) \<and> r = str_rel (rel @ [fst e]))"
  by (auto simp: visit_def Let_def)

lemma walk_dir_iff:
  assumes "\<not> int (length rel) > d"
  shows "(b, r) \<in> set (walk m p rp d rel (Dir entries)) \<longleftrightarrow>
     (\<exists>e \<in> set entries. (b, r) \<in> set (visit m p rp rel e))
     \<or> (b, r) \<in> set (walk_dirs m p rp d True rel entries)"
proof -
  let ?L = "filter (\<lambda>e. is_dir (snd e) \<and> \<not> should_skip_path (child rp (rel @ [fst e]))) entries
            @ filter (\<lambda>e. \<not> is_dir (snd e)) entries"
  have w: "set (walk m p rp d rel (Dir entries))
      = (\<Union>e \<in> set ?L. set (visit m p rp rel e)) \<union> set (walk_dirs m p rp d True rel entries)"
    using assms by (simp add: Let_def Un_assoc)
  have "(\<exists>e \<in> set ?L. (b, r) \<in> set (visit m p rp rel e))
        \<longleftrightarrow> (\<exists>e \<in> set entries. (b, r) \<in> set (visit m p rp rel e))"
  proof
    assume "\<exists>e \<in> set ?L. (b, r) \<in> set (visit m p rp rel e)"
    then show "\<exists>e \<in> set entries. (b, r) \<in> set (visit m p rp rel e)" by auto
  next
    assume "\<exists>e \<in> set entries. (b, r) \<in> set (visit m p rp rel e)"
    then obtain e where e: "e \<in> set entries" "(b, r) \<in> set (visit m p rp rel e)" by blast
    from e(2) have "\<not> should_skip_path (child rp (rel @ [fst e]))" by (simp add: visit_iff)
    with e(1) have "e \<in> set ?L" by auto
    with e(2) show "\<exists>e \<in> set ?L. (b, r) \<in> set (visit m p rp rel e)" by blast
  qed
  then show ?thesis unfolding w by blast
qed

text \<open>Every match of the walk is an entry of the tree whose absolute path the matcher accepts.\<close>

lemma walk_sound:
  "(b, r) \<in> set (walk m p rp d rel0 node) \<Longrightarrow>
     \<exists>rel nd. rel \<noteq> [] \<and> entry_at node rel nd \<and> b = is_file nd \<and> r = str_rel (rel0 @ rel)
        \<and> int (length (rel0 @ rel)) \<le> d + 1 \<and> \<not> list_ex starts_with_dot (rel0 @ rel)
        \<and> (\<forall>k. 0 < k \<and> k \<le> length rel \<longrightarrow> \<not> should_skip_path (child rp (rel0 @ take k rel)))
        \<and> m (str_path (child rp (rel0 @ rel))) p"
  "e \<in> set es \<Longrightarrow> is_dir (snd e)
     \<Longrightarrow> (pr \<longrightarrow> \<not> should_skip_path (child rp (rel0 @ [fst e])))
     \<Longrightarrow> (b, r) \<in> set (walk m p rp d (rel0 @ [fst e]) (snd e)) \<Longrightarrow>
     \<exists>rel nd. rel \<noteq> [] \<and> entry_at (snd e) rel nd \<and> b = is_file nd
        \<and> r = str_rel ((rel0 @ [fst e]) @ rel)
        \<and> int (length ((rel0 @ [fst e]) @ rel)) \<le> d + 1
        \<and> \<not> list_ex starts_with_dot ((rel0 @ [fst e]) @ rel)
        \<and> (\<forall>k. 0 < k \<and> k \<le> length rel \<longrightarrow>
              \<not> should_skip_path (child rp ((rel0 @ [fst e]) @ take k rel)))
        \<and> m (str_path (child rp ((rel0 @ [fst e]) @ rel))) p"
proof (induction m p rp d rel0 node and m p rp d pr rel0 es
       arbitrary: b r and b r e rule: walk_walk_dirs.induct)
  case (1 m p rp d rel entries)
  show ?case
  proof (cases "int (length rel) > d")
    case True
    then have "walk m p rp d rel (Dir entries) = []" by (rule walk_too_deep(1))
    with "1.prems" show ?thesis by (simp del: walk.simps)
  next
    case False
    from "1.prems" False consider
      (here) e where "e \<in> set entries" "(b, r) \<in> set (visit m p rp rel e)"
      | (below) "(b, r) \<in> set (walk_dirs m p rp d True rel entries)"
      by (auto simp: walk_dir_iff simp del: walk.simps)
    then show ?thesis
    proof cases
      case here
      from here(2) have v: "\<not> should_skip_path (child rp (rel @ [fst e]))"
        "\<not> list_ex starts_with_dot (rel @ [fst e])" "m (str_path (child rp (rel @ [fst e]))) p"
        "b = is_file (snd e)" "r = str_rel (rel @ [fst e])"
        by (simp_all add: visit_iff)
      have "entry_at (Dir entries) [fst e] (snd e)"
        using here(1) by (auto simp: entry_in_iff intro: exI [of _ "snd e"])
      moreover have "int (length (rel @ [fst e])) \<le> d + 1" using False by simp
      moreover have "\<forall>k. 0 < k \<and> k \<le> length [fst e] \<longrightarrow>
          \<not> should_skip_path (child rp (rel @ take k [fst e]))"
        using v(1) by auto
      ultimately show ?thesis
        using v by (intro exI [of _ "[fst e]"] exI [of _ "snd e"]) simp
    next
      case below
      then obtain e where e: "e \<in> set entries" "is_dir (snd e)"
        "\<not> should_skip_path (child rp (rel @ [fst e]))"
        "(b, r) \<in> set (walk m p rp d (rel @ [fst e]) (snd e))"
        by (auto simp: walk_dirs_iff)
      define dirs where "dirs = filter (\<lambda>e. is_dir (snd e)
                                \<and> \<not> should_skip_path (child rp (rel @ [fst e]))) entries"
      define files where "files = filter (\<lambda>e. \<not> is_dir (snd e)) entries"
      have pr: "True \<longrightarrow> \<not> should_skip_path (child rp (rel @ [fst e]))" using e(3) by simp
      from "1.IH"(2) [OF False dirs_def files_def e(1,2) pr e(4)]
      obtain rel' nd where h: "rel' \<noteq> []" "entry_at (snd e) rel' nd" "b = is_file nd"
        "r = str_rel ((rel @ [fst e]) @ rel')"
        "int (length ((rel @ [fst e]) @ rel')) \<le> d + 1"
        "\<not> list_ex starts_with_dot ((rel @ [fst e]) @ rel')"
        "\<forall>k. 0 < k \<and> k \<le> length rel' \<longrightarrow>
              \<not> should_skip_path (child rp ((rel @ [fst e]) @ take k rel'))"
        "m (str_path (child rp ((rel @ [fst e]) @ rel'))) p"
        by blast
      have a: "entry_at (Dir entries) (fst e # rel') nd"
        using e(1) h(2) by (auto simp: entry_in_iff intro: exI [of _ "snd e"])
      have s: "\<forall>k. 0 < k \<and> k \<le> length (fst e # rel') \<longrightarrow>
              \<not> should_skip_path (child rp (rel @ take k (fst e # rel')))"
      proof (intro allI impI)
        fix k assume k: "0 < k \<and> k \<le> length (fst e # rel')"
        show "\<not> should_skip_path (child rp (rel @ take k (fst e # rel')))"
        proof (cases k)
          case 0
          with k show ?thesis by simp
        next
          case (Suc j)
          show ?thesis
          proof (cases j)
            case 0
            with Suc e(3) show ?thesis by simp
          next
            case (Suc i)
            with k \<open>k = Suc j\<close> h(7) [rule_format, of j] show ?thesis by simp
          qed
        qed
      qed
      show ?thesis
        using a h(3-6,8) s by (intro exI [of _ "fst e # rel'"] exI [of _ nd]) simp
    qed
  qed
next
  case (2 m p rp d rel content)
  then show ?case by simp
next
  case (3 m p rp d rel)
  then show ?case by simp
next
  case (4 m p rp d pr rel)
  then show ?case by simp
next
  case (5 m p rp d pr rel e' rest)
  show ?case
  proof (cases "e = e'")
    case True
    from "5.IH"(1) [of b r] "5.prems" True show ?thesis by simp
  next
    case False
    with "5.prems" have "e \<in> set rest" by simp
    from "5.IH"(2) [OF this "5.prems"(2,3,4)] show ?thesis .
  qed
qed

text \<open>Every entry of the tree whose absolute path the matcher accepts is a match of the walk.\<close>

lemma walk_complete:
  assumes "entry_at (Dir entries) rel node" and "rel \<noteq> []"
    and "int (length (rel0 @ rel)) \<le> d + 1"
    and "\<forall>k. 0 < k \<and> k \<le> length rel \<longrightarrow> \<not> should_skip_path (child rp (rel0 @ take k rel))"
    and "\<not> list_ex starts_with_dot (rel0 @ rel)"
    and "m (str_path (child rp (rel0 @ rel))) p"
  shows "(is_file node, str_rel (rel0 @ rel)) \<in> set (walk m p rp d rel0 (Dir entries))"
  using assms
proof (induction rel arbitrary: rel0 entries)
  case Nil
  then show ?case by simp
next
  case (Cons x xs)
  from Cons.prems(1) obtain nd where nd: "(x, nd) \<in> set entries" "entry_at nd xs node"
    by (auto simp: entry_in_iff)
  have deep: "\<not> int (length rel0) > d" using Cons.prems(3) by simp
  have skip: "\<not> should_skip_path (child rp (rel0 @ [x]))"
    using Cons.prems(4) [rule_format, of 1] by simp
  show ?case
  proof (cases xs)
    case Nil
    with nd have node: "nd = node" by simp
    have "(is_file node, str_rel (rel0 @ [x])) \<in> set (visit m p rp rel0 (x, node))"
      using skip Cons.prems(5,6) Nil by (simp add: visit_iff)
    with nd(1) node have "\<exists>e \<in> set entries. (is_file node, str_rel (rel0 @ [x])) \<in> set (visit m p rp rel0 e)"
      by blast
    then show ?thesis
      unfolding walk_dir_iff [OF deep] Nil by (rule disjI1)
  next
    case (Cons y ys)
    with nd(2) obtain es where es: "nd = Dir es" by (auto simp: entry_at_step)
    have "(is_file node, str_rel ((rel0 @ [x]) @ xs)) \<in> set (walk m p rp d (rel0 @ [x]) (Dir es))"
    proof (rule Cons.IH)
      show "entry_at (Dir es) xs node" using nd(2) es by simp
      show "xs \<noteq> []" using Cons by simp
      show "int (length ((rel0 @ [x]) @ xs)) \<le> d + 1" using Cons.prems(3) by simp
      show "\<forall>k. 0 < k \<and> k \<le> length xs \<longrightarrow> \<not> should_skip_path (child rp ((rel0 @ [x]) @ take k xs))"
      proof (intro allI impI)
        fix k assume "0 < k \<and> k \<le> length xs"
        then show "\<not> should_skip_path (child rp ((rel0 @ [x]) @ take k xs))"
          using Cons.prems(4) [rule_format, of "Suc k"] by simp
      qed
      show "\<not> list_ex starts_with_dot ((rel0 @ [x]) @ xs)" using Cons.prems(5) by simp
      show "m (str_path (child rp ((rel0 @ [x]) @ xs))) p" using Cons.prems(6) by simp
    qed
    then have "(is_file node, str_rel (rel0 @ x # xs))
        \<in> set (walk m p rp d (rel0 @ [fst (x, nd)]) (snd (x, nd)))"
      using es by simp
    with nd(1) skip es have "(is_file node, str_rel (rel0 @ x # xs)) \<in> set (walk_dirs m p rp d True rel0 entries)"
      unfolding walk_dirs_iff by (intro bexI [of _ "(x, nd)"]) simp_all
    then show ?thesis
      unfolding walk_dir_iff [OF deep] by (rule disjI2)
  qed
qed

lemma walk_iff:
  "(b, r) \<in> set (walk m p rp d [] (Dir entries)) \<longleftrightarrow>
   (\<exists>rel node. rel \<noteq> [] \<and> entry_at (Dir entries) rel node \<and> b = is_file node \<and> r = str_rel rel
       \<and> int (length rel) \<le> d + 1 \<and> \<not> list_ex starts_with_dot rel
       \<and> (\<forall>k. 0 < k \<and> k \<le> length rel \<longrightarrow> \<not> should_skip_path (child rp (take k rel)))
       \<and> m (str_path (child rp rel)) p)"
proof
  assume "(b, r) \<in> set (walk m p rp d [] (Dir entries))"
  from walk_sound(1) [OF this] show "\<exists>rel node. rel \<noteq> [] \<and> entry_at (Dir entries) rel node
       \<and> b = is_file node \<and> r = str_rel rel
       \<and> int (length rel) \<le> d + 1 \<and> \<not> list_ex starts_with_dot rel
       \<and> (\<forall>k. 0 < k \<and> k \<le> length rel \<longrightarrow> \<not> should_skip_path (child rp (take k rel)))
       \<and> m (str_path (child rp rel)) p"
    by simp
next
  assume "\<exists>rel node. rel \<noteq> [] \<and> entry_at (Dir entries) rel node \<and> b = is_file node \<and> r = str_rel rel
       \<and> int (length rel) \<le> d + 1 \<and> \<not> list_ex starts_with_dot rel
       \<and> (\<forall>k. 0 < k \<and> k \<le> length rel \<longrightarrow> \<not> should_skip_path (child rp (take k rel)))
       \<and> m (str_path (child rp rel)) p"
  then obtain rel node where h: "rel \<noteq> []" "entry_at (Dir entries) rel node" "b = is_file node"
    "r = str_rel rel" "int (length rel) \<le> d + 1" "\<not> list_ex starts_with_dot rel"
    "\<forall>k. 0 < k \<and> k \<le> length rel \<longrightarrow> \<not> should_skip_path (child rp (take k rel))"
    "m (str_path (child rp rel)) p"
    by blast
  have "(is_file node, str_rel ([] @ rel)) \<in> set (walk m p rp d [] (Dir entries))"
    using h(2,1) by (rule walk_complete) (use h in simp_all)
  then show "(b, r) \<in> set (walk m p rp d [] (Dir entries))"
    using h(3,4) by simp
qed

lemma str_path_prefix:
  assumes "anchor rp \<noteq> []" and "r \<noteq> []"
  shows "prefix (str_path rp) (str_path (child rp r))"
proof (cases "names rp = []")
  case True
  then show ?thesis using assms by (simp add: str_path_def child_def)
next
  case False
  then have "join ''/'' (names rp @ r) = join ''/'' (names rp) @ ''/'' @ join ''/'' r"
    using assms(2) by (rule join_append)
  then show ?thesis using False assms(2) by (simp add: str_path_def child_def)
qed

lemma sublist_inside:
  assumes "sublist x y"
  shows "sublist x (a @ y @ b)"
proof -
  from assms obtain ps ss where "y = ps @ x @ ss" unfolding sublist_def by blast
  then have "a @ y @ b = (a @ ps) @ x @ (ss @ b)" by simp
  then show ?thesis using sublist_appendI [of x "a @ ps" "ss @ b"] by simp
qed

lemma sublist_of_prefix:
  assumes "sublist q a" and "prefix a b"
  shows "sublist q b"
proof -
  from assms(2) obtain zs where "b = a @ zs" unfolding prefix_def by blast
  then show ?thesis using sublist_inside [OF assms(1), of "[]" zs] by simp
qed

lemma join_lists_line: "x \<in> set xs \<Longrightarrow> sublist (delim @ x) (delim @ join delim xs)"
proof (induction delim xs rule: join.induct)
  case (1 sep)
  then show ?case by simp
next
  case (2 sep y)
  then show ?case by simp
next
  case (3 sep y z zs)
  show ?case
  proof (cases "x = y")
    case True
    have "sublist (sep @ y) ([] @ (sep @ y) @ (sep @ join sep (z # zs)))" by (rule sublist_appendI)
    then show ?thesis using True by simp
  next
    case False
    with 3 have "sublist (sep @ x) (sep @ join sep (z # zs))" by simp
    then have "sublist (sep @ x) ((sep @ y) @ (sep @ join sep (z # zs)) @ [])"
      by (rule sublist_inside)
    then show ?thesis by simp
  qed
qed

lemma render_lists_line:
  assumes "(b, r) \<in> set found"
  shows "sublist ([CHR 0x0A] @ ''  * '' @ r) (render_found found)"
proof -
  let ?delim = "[CHR 0x0A] @ ''  * ''"
  let ?fm = "map snd (filter fst found)"
  let ?dm = "map snd (filter (\<lambda>m. \<not> fst m) found)"
  let ?fp = "if length ?fm > 0 then ?delim @ join ?delim ?fm else [CHR 0x0A] @ ''  No files found''"
  let ?dp = "if length ?dm > 0 then ?delim @ join ?delim ?dm else [CHR 0x0A] @ ''  No directories found''"
  have r: "render_found found = ''    Files:'' @ ?fp @ ([CHR 0x0A, CHR 0x0A] @ ''    Directories:'' @ ?dp
         @ [CHR 0x0A, CHR 0x0A] @ ''    '')"
    by (simp add: render_found_def Let_def)
  show ?thesis
  proof (cases b)
    case True
    with assms have "(b, r) \<in> set (filter fst found)" by simp
    then have m: "r \<in> set ?fm" by (metis image_eqI set_map snd_conv)
    then have "length ?fm > 0" by (cases ?fm) auto
    moreover have "sublist (?delim @ r) (?delim @ join ?delim ?fm)" using m by (rule join_lists_line)
    ultimately have "sublist (?delim @ r) ?fp" by simp
    then have "sublist (?delim @ r) (''    Files:'' @ ?fp @ ([CHR 0x0A, CHR 0x0A] @ ''    Directories:'' @ ?dp
         @ [CHR 0x0A, CHR 0x0A] @ ''    ''))"
      by (rule sublist_inside)
    then show ?thesis unfolding r by (simp only: append_assoc)
  next
    case False
    with assms have "(b, r) \<in> set (filter (\<lambda>m. \<not> fst m) found)" by simp
    then have m: "r \<in> set ?dm" by (metis image_eqI set_map snd_conv)
    then have "length ?dm > 0" by (cases ?dm) auto
    moreover have "sublist (?delim @ r) (?delim @ join ?delim ?dm)" using m by (rule join_lists_line)
    ultimately have "sublist (?delim @ r) ?dp" by simp
    then have "sublist (?delim @ r) ((''    Files:'' @ ?fp @ [CHR 0x0A, CHR 0x0A] @ ''    Directories:'') @ ?dp
         @ ([CHR 0x0A, CHR 0x0A] @ ''    ''))"
      by (rule sublist_inside)
    then show ?thesis unfolding r by (simp only: append_assoc)
  qed
qed

text \<open>
  C9. \<open>find_files\<close> applies the pattern to the text of the absolute path of each entry, not
  to its path relative to the searched directory. The matches listed are exactly the
  entries of the tree below the searched directory whose parent lies at most \<open>depth\<close> levels
  below that directory, with no dot-prefixed name on the way from the directory to the
  entry, with neither the entry nor a directory on the way skipped by the deny-list, and
  with an absolute path that the pattern (widened when it has no \<open>*\<close>) matches; each is
  listed with its relative path. So for a pattern without wildcard that is a part of the
  text of the searched directory's absolute path, every such entry is listed, whatever its
  relative path is.
\<close>

theorem absolute_path_matching:
  assumes "\<not> outside self (resolve w path)"
    and "lookup (fs w) (names (resolve w path)) = Some (Dir entries)"
  shows "\<exists>found. find_files self w path p depth is_case_sensitive [] = Inr (render_found found)
          \<and> (\<forall>b r. (b, r) \<in> set found \<longleftrightarrow>
                (\<exists>rel node. rel \<noteq> [] \<and> entry_at (Dir entries) rel node
                   \<and> b = is_file node \<and> r = str_rel rel
                   \<and> int (length rel) \<le> depth + 1 \<and> \<not> list_ex starts_with_dot rel
                   \<and> (\<forall>k. 0 < k \<and> k \<le> length rel \<longrightarrow>
                         \<not> should_skip_path (child (resolve w path) (take k rel)))
                   \<and> (if is_case_sensitive then fnmatchcase else fnmatch)
                        (str_path (child (resolve w path) rel))
                        (if CHR ''*'' \<in> set p then p else ''*'' @ p @ ''*'')))
          \<and> (\<forall>b r. (b, r) \<in> set found \<longrightarrow>
                sublist ([CHR 0x0A] @ ''  * '' @ r) (render_found found))
          \<and> (anchor (resolve w path) \<noteq> [] \<and> CHR ''*'' \<notin> set p \<and> CHR ''?'' \<notin> set p
               \<and> CHR ''['' \<notin> set p \<and> sublist p (str_path (resolve w path))
             \<longrightarrow> (\<forall>rel node. rel \<noteq> [] \<and> entry_at (Dir entries) rel node
                     \<and> int (length rel) \<le> depth + 1 \<and> \<not> list_ex starts_with_dot rel
                     \<and> (\<forall>k. 0 < k \<and> k \<le> length rel \<longrightarrow>
                           \<not> should_skip_path (child (resolve w path) (take k rel)))
                   \<longrightarrow> (is_file node, str_rel rel) \<in> set found))"
proof -
  let ?rp = "resolve w path"
  let ?m = "if is_case_sensitive then fnmatchcase else fnmatch"
  let ?p = "if CHR ''*'' \<in> set p then p else ''*'' @ p @ ''*''"
  let ?found = "walk ?m ?p ?rp depth [] (Dir entries)"
  have f: "find_files self w path p depth is_case_sensitive [] = Inr (render_found ?found)"
    using assms by (simp add: find_files_def list_files_def Let_def)
  have i: "\<forall>b r. (b, r) \<in> set ?found \<longleftrightarrow>
                (\<exists>rel node. rel \<noteq> [] \<and> entry_at (Dir entries) rel node
                   \<and> b = is_file node \<and> r = str_rel rel
                   \<and> int (length rel) \<le> depth + 1 \<and> \<not> list_ex starts_with_dot rel
                   \<and> (\<forall>k. 0 < k \<and> k \<le> length rel \<longrightarrow>
                         \<not> should_skip_path (child ?rp (take k rel)))
                   \<and> ?m (str_path (child ?rp rel)) ?p)"
    by (intro allI) (rule walk_iff)
  have l: "\<forall>b r. (b, r) \<in> set ?found \<longrightarrow> sublist ([CHR 0x0A] @ ''  * '' @ r) (render_found ?found)"
    by (intro allI impI) (rule render_lists_line)
  have c: "anchor ?rp \<noteq> [] \<and> CHR ''*'' \<notin> set p \<and> CHR ''?'' \<notin> set p
               \<and> CHR ''['' \<notin> set p \<and> sublist p (str_path ?rp)
             \<longrightarrow> (\<forall>rel node. rel \<noteq> [] \<and> entry_at (Dir entries) rel node
                     \<and> int (length rel) \<le> depth + 1 \<and> \<not> list_ex starts_with_dot rel
                     \<and> (\<forall>k. 0 < k \<and> k \<le> length rel \<longrightarrow>
                           \<not> should_skip_path (child ?rp (take k rel)))
                   \<longrightarrow> (is_file node, str_rel rel) \<in> set ?found)"
  proof (intro impI allI)
    fix rel node
    assume a: "anchor ?rp \<noteq> [] \<and> CHR ''*'' \<notin> set p \<and> CHR ''?'' \<notin> set p
               \<and> CHR ''['' \<notin> set p \<and> sublist p (str_path ?rp)"
      and e: "rel \<noteq> [] \<and> entry_at (Dir entries) rel node
                     \<and> int (length rel) \<le> depth + 1 \<and> \<not> list_ex starts_with_dot rel
                     \<and> (\<forall>k. 0 < k \<and> k \<le> length rel \<longrightarrow>
                           \<not> should_skip_path (child ?rp (take k rel)))"
    from a have w: "CHR ''*'' \<notin> set p" "CHR ''?'' \<notin> set p" "CHR ''['' \<notin> set p"
      and an: "anchor ?rp \<noteq> []" and sp: "sublist p (str_path ?rp)" by simp_all
    from e have ne: "rel \<noteq> []" by simp
    have "sublist p (str_path (child ?rp rel))"
      using sp str_path_prefix [OF an ne] by (rule sublist_of_prefix)
    then have "?m (str_path (child ?rp rel)) (''*'' @ p @ ''*'')"
      using fnmatch_widened [OF w] fnmatchcase_widened [OF w] by simp
    then have "?m (str_path (child ?rp rel)) ?p" using w(1) by simp
    with e show "(is_file node, str_rel rel) \<in> set ?found"
      unfolding walk_iff by blast
  qed
  show ?thesis by (rule exI [of _ ?found]) (intro conjI f i l c)
qed

theorem absolute_path_matching_witness:
  "\<not> outside example_tools (resolve example_world ''proj'')
   \<and> str_path (resolve example_world ''proj'') = ''/w/proj''
   \<and> sublist ''w'' ''/w/proj''
   \<and> \<not> sublist ''w'' ''src/main.py''
   \<and> \<not> should_skip_path (child (resolve example_world ''proj'') [''src''])
   \<and> \<not> should_skip_path (child (resolve example_world ''proj'') [''src'', ''main.py''])
   \<and> sublist ([CHR 0x0A] @ ''  * src/main.py'')
         (case find_files example_tools example_world ''proj'' ''w'' 1 False [] of
            Inl e \<Rightarrow> [] | Inr text \<Rightarrow> text)
   \<and> fnmatch ''src'' ''src*''
   \<and> \<not> fnmatch ''/w/proj/src'' ''src*''
   \<and> find_files example_tools example_world ''proj'' ''src*'' 1 False [] = Inr (render_found [])"
proof -
  let ?rp = "resolve example_world ''proj''"
  let ?src = "Dir [(''main.py'', File (Inr (''import os'' @ [CHR 0x0A] @ ''x = image1.png'' @ [CHR 0x0A]))),
                   (''deep'', Dir [(''z.py'', File (Inr []))])]"
  let ?es = "[(''src'', ?src),
              (''image1.png.txt'', File (Inr ''picture'')),
              (''a.pyc'', File (Inr [])),
              (''.git'', Dir [(''config'', File (Inr []))]),
              (''README'', File (Inr ''hello''))]"
  let ?node = "File (Inr (''import os'' @ [CHR 0x0A] @ ''x = image1.png'' @ [CHR 0x0A]))"
  let ?rel = "[''src'', ''main.py'']"
  have 1: "\<not> outside example_tools ?rp" by code_simp
  have 2: "anchor ?rp \<noteq> []" by code_simp
  have 3: "lookup (fs example_world) (names ?rp) = Some (Dir ?es)" by code_simp
  have 4: "CHR ''*'' \<notin> set ''w''" "CHR ''?'' \<notin> set ''w''" "CHR ''['' \<notin> set ''w''" by simp_all
  have s: "str_path ?rp = ''/w/proj''" by code_simp
  have 5: "sublist ''w'' ''/w/proj''" by code_simp
  have 6: "entry_at (Dir ?es) ?rel ?node" by simp
  have 7: "?rel \<noteq> []" by simp
  have 8: "int (length ?rel) \<le> 1 + 1" by simp
  have k1: "\<not> should_skip_path (child ?rp [''src''])" by code_simp
  have k2: "\<not> should_skip_path (child ?rp [''src'', ''main.py''])" by code_simp
  have 9: "\<forall>k. 0 < k \<and> k \<le> length ?rel \<longrightarrow> \<not> should_skip_path (child ?rp (take k ?rel))"
  proof (intro allI impI)
    fix k :: nat assume "0 < k \<and> k \<le> length ?rel"
    then have "k = 1 \<or> k = 2" by auto
    then show "\<not> should_skip_path (child ?rp (take k ?rel))"
      using k1 k2 by auto
  qed
  have 10: "\<not> list_ex starts_with_dot ?rel" by (simp add: starts_with_dot_def)
  have n: "\<not> sublist ''w'' ''src/main.py''" by code_simp
  have r: "str_rel ?rel = ''src/main.py''" by (simp add: str_rel_def)
  from absolute_path_matching [where self = example_tools and w = example_world
      and path = "''proj''" and entries = ?es and p = "''w''"
      and depth = 1 and is_case_sensitive = False, OF 1 3]
  obtain found where
    f: "find_files example_tools example_world ''proj'' ''w'' 1 False [] = Inr (render_found found)"
    and l: "\<forall>b r. (b, r) \<in> set found \<longrightarrow> sublist ([CHR 0x0A] @ ''  * '' @ r) (render_found found)"
    and c: "anchor ?rp \<noteq> [] \<and> CHR ''*'' \<notin> set ''w'' \<and> CHR ''?'' \<notin> set ''w''
               \<and> CHR ''['' \<notin> set ''w'' \<and> sublist ''w'' (str_path ?rp)
             \<longrightarrow> (\<forall>rel node. rel \<noteq> [] \<and> entry_at (Dir ?es) rel node
                     \<and> int (length rel) \<le> 1 + 1 \<and> \<not> list_ex starts_with_dot rel
                     \<and> (\<forall>k. 0 < k \<and> k \<le> length rel \<longrightarrow>
                           \<not> should_skip_path (child ?rp (take k rel)))
                   \<longrightarrow> (is_file node, str_rel rel) \<in> set found)"
    by blast
  from c 2 4 5 s have "\<forall>rel node. rel \<noteq> [] \<and> entry_at (Dir ?es) rel node
                     \<and> int (length rel) \<le> 1 + 1 \<and> \<not> list_ex starts_with_dot rel
                     \<and> (\<forall>k. 0 < k \<and> k \<le> length rel \<longrightarrow>
                           \<not> should_skip_path (child ?rp (take k rel)))
                   \<longrightarrow> (is_file node, str_rel rel) \<in> set found"
    by simp
  from this [rule_format, of ?rel ?node] 6 7 8 9 10
  have "(is_file ?node, str_rel ?rel) \<in> set found" by blast
  with l have "sublist ([CHR 0x0A] @ ''  * '' @ str_rel ?rel) (render_found found)" by blast
  then have line: "sublist ([CHR 0x0A] @ ''  * src/main.py'')
         (case find_files example_tools example_world ''proj'' ''w'' 1 False [] of
            Inl e \<Rightarrow> [] | Inr text \<Rightarrow> text)"
    unfolding f r by simp
  have m1: "fnmatch ''src'' ''src*''" by code_simp
  have m2: "\<not> fnmatch ''/w/proj/src'' ''src*''" by code_simp
  have t: "translate ''src*'' = map Lit ''src'' @ [Star]" by code_simp
  have away: "\<not> fnmatch (str_path (child ?rp rel)) ''src*''" if "rel \<noteq> []" for rel
  proof
    assume "fnmatch (str_path (child ?rp rel)) ''src*''"
    then have "gmatch (map Lit ''src'' @ [Star]) (str_path (child ?rp rel))"
      by (simp add: fnmatch_def fnmatchcase_def normcase_def t)
    then have "prefix ''src'' (str_path (child ?rp rel))" by (rule gmatch_lits_prefix)
    moreover have "prefix ''/w/proj'' (str_path (child ?rp rel))"
      using str_path_prefix [OF 2 that] unfolding s .
    ultimately show False by (auto simp: prefix_def)
  qed
  from absolute_path_matching [where self = example_tools and w = example_world
      and path = "''proj''" and entries = ?es and p = "''src*''"
      and depth = 1 and is_case_sensitive = False, OF 1 3]
  obtain found' where
    f': "find_files example_tools example_world ''proj'' ''src*'' 1 False [] = Inr (render_found found')"
    and i': "\<forall>b r. (b, r) \<in> set found' \<longleftrightarrow>
                (\<exists>rel node. rel \<noteq> [] \<and> entry_at (Dir ?es) rel node
                   \<and> b = is_file node \<and> r = str_rel rel
                   \<and> int (length rel) \<le> 1 + 1 \<and> \<not> list_ex starts_with_dot rel
                   \<and> (\<forall>k. 0 < k \<and> k \<le> length rel \<longrightarrow>
                         \<not> should_skip_path (child ?rp (take k rel)))
                   \<and> (if False then fnmatchcase else fnmatch)
                        (str_path (child ?rp rel))
                        (if CHR ''*'' \<in> set ''src*'' then ''src*'' else ''*'' @ ''src*'' @ ''*''))"
    by blast
  have "x \<notin> set found'" for x
  proof
    assume "x \<in> set found'"
    then have "(fst x, snd x) \<in> set found'" by simp
    from i' [rule_format, THEN iffD1, OF this]
    obtain rel where ne: "rel \<noteq> []"
      and "(if False then fnmatchcase else fnmatch) (str_path (child ?rp rel))
             (if CHR ''*'' \<in> set ''src*'' then ''src*'' else ''*'' @ ''src*'' @ ''*'')"
      by blast
    then have "fnmatch (str_path (child ?rp rel)) ''src*''" by simp
    with away [OF ne] show False by simp
  qed
  then have "found' = []" by (cases found') auto
  with f' have none: "find_files example_tools example_world ''proj'' ''src*'' 1 False []
      = Inr (render_found [])"
    by simp
  show ?thesis using 1 s 5 n k1 k2 line m1 m2 none by (intro conjI)
qed

end
